theory Spec2Isabelle
  imports Main "HOL-Library.Word"
begin

unbundle bit_operations_syntax

section \<open>JavaScript values\<close>

text \<open>
  The helpers of \<^verbatim>\<open>src/commonHelpers/index.ts\<close> are untyped at run time, so their
  arguments are JavaScript values. A string is its sequence of UTF-16 code units. A native
  promise is described by what becomes of it (\<open>fate\<close>): it fulfils with a value, rejects
  with a reason, or stays pending for ever. An object is the list of its own enumerable
  string-keyed data properties, in the order \<^verbatim>\<open>Object.entries\<close> lists them. Numbers are
  restricted to the integers, which is all the helpers can observe of them (truthiness).
\<close>

type_synonym byte = "8 word"
type_synonym jsstring = "16 word list"

definition ascii :: "string \<Rightarrow> jsstring" where
  "ascii s = map (\<lambda>c. of_nat (of_char c)) s"

datatype jsval =
    JUndefined
  | JNull
  | JBool bool
  | JNum int
  | JStr jsstring
  | JError string string
  | JObject "(jsstring \<times> jsval) list"
  | JFunction string
  | JPromise fate
and fate =
    Fulfils jsval
  | Rejects jsval
  | Never

text \<open>The result of calling a JavaScript function: it returns a value or throws one.\<close>

datatype completion = Return jsval | Throw jsval

text \<open>\<^verbatim>\<open>!!v\<close>\<close>

fun truthy :: "jsval \<Rightarrow> bool" where
  "truthy JUndefined = False"
| "truthy JNull = False"
| "truthy (JBool b) = b"
| "truthy (JNum n) = (n \<noteq> 0)"
| "truthy (JStr s) = (s \<noteq> [])"
| "truthy (JError _ _) = True"
| "truthy (JObject _) = True"
| "truthy (JFunction _) = True"
| "truthy (JPromise _) = True"

fun callable :: "jsval \<Rightarrow> bool" where
  "callable (JFunction _) = True"
| "callable _ = False"

text \<open>
  \<^verbatim>\<open>obj?.then\<close>: \<^verbatim>\<open>undefined\<close> on \<^verbatim>\<open>null\<close> and \<^verbatim>\<open>undefined\<close>; the own property of an
  object, if it has one; the built-in method of a native promise; \<^verbatim>\<open>undefined\<close> for
  everything else, whose prototypes (unmodified) have no \<^verbatim>\<open>then\<close>.
\<close>

fun get_then :: "jsval \<Rightarrow> jsval" where
  "get_then (JObject ps) =
     (case map_of ps (ascii ''then'') of Some v \<Rightarrow> v | None \<Rightarrow> JUndefined)"
| "get_then (JPromise _) = JFunction ''Promise.prototype.then''"
| "get_then _ = JUndefined"

text \<open>\<^verbatim>\<open>export const isPromise = (obj: any) => { return !!obj?.then; };\<close>\<close>

definition isPromise :: "jsval \<Rightarrow> bool" where
  "isPromise obj = truthy (get_then obj)"

text \<open>
  \<^verbatim>\<open>Promise.resolve(x)\<close>, described by the fate of the promise it returns. A native
  promise is returned as it is. An object whose \<^verbatim>\<open>then\<close> is callable is adopted: its
  \<^verbatim>\<open>then\<close> is user code, whose effect on the new promise is the parameter \<open>thenable\<close>.
  Any other value fulfils the promise with itself.
\<close>

fun promise_resolve :: "(jsval \<Rightarrow> fate) \<Rightarrow> jsval \<Rightarrow> fate" where
  "promise_resolve thenable (JPromise f) = f"
| "promise_resolve thenable v =
     (if callable (get_then v) then thenable v else Fulfils v)"

section \<open>The record under construction\<close>

text \<open>
  \<^verbatim>\<open>const results = {}\<close> is an ordinary object whose prototype is \<^verbatim>\<open>Object.prototype\<close>.
  The assignment \<^verbatim>\<open>results[key] = result\<close> creates or overwrites an own property, except
  for the key \<^verbatim>\<open>__proto__\<close>: that name is an accessor inherited from
  \<^verbatim>\<open>Object.prototype\<close>, whose setter replaces the prototype when the value is an object
  or \<^verbatim>\<open>null\<close> and does nothing for any other value. No own property is created then.

  Once the prototype has been replaced by another object, an assignment looks the key up
  on that object and its prototypes. What it finds there decides what happens: a
  read-only property or an accessor without a setter makes the assignment throw a
  \<^verbatim>\<open>TypeError\<close> (the module is strict code), a setter is run in its place, and only
  otherwise is an own property created. The model of values does not record the
  attributes of properties, so the effect of an assignment under a replaced prototype is
  the parameter \<open>inherited\<close>: given the prototype, the object, the key and the value it
  throws or returns the object after the assignment.
\<close>

datatype prototype = ObjectPrototype | NullPrototype | OtherPrototype jsval

record jsobject =
  props :: "(jsstring \<times> jsval) list"
  proto :: prototype

definition empty_object :: jsobject where
  "empty_object = \<lparr>props = [], proto = ObjectPrototype\<rparr>"

fun is_primitive :: "jsval \<Rightarrow> bool" where
  "is_primitive JUndefined = True"
| "is_primitive JNull = True"
| "is_primitive (JBool _) = True"
| "is_primitive (JNum _) = True"
| "is_primitive (JStr _) = True"
| "is_primitive _ = False"

fun assign :: "(jsstring \<times> jsval) list \<Rightarrow> jsstring \<Rightarrow> jsval \<Rightarrow> (jsstring \<times> jsval) list" where
  "assign [] k v = [(k, v)]"
| "assign ((k', v') # ps) k v = (if k' = k then (k, v) # ps else (k', v') # assign ps k v)"

type_synonym inherited = "jsval \<Rightarrow> jsobject \<Rightarrow> jsstring \<Rightarrow> jsval \<Rightarrow> jsval + jsobject"

definition set_property :: "inherited \<Rightarrow> jsobject \<Rightarrow> jsstring \<Rightarrow> jsval \<Rightarrow> jsval + jsobject" where
  "set_property inherited obj key v =
     (case proto obj of
        OtherPrototype p \<Rightarrow> inherited p obj key v
      | NullPrototype \<Rightarrow> Inr (obj\<lparr>props := assign (props obj) key v\<rparr>)
      | ObjectPrototype \<Rightarrow>
          if key = ascii ''__proto__'' \<and> map_of (props obj) key = None then
            Inr (if v = JNull then obj\<lparr>proto := NullPrototype\<rparr>
                 else if is_primitive v then obj
                 else obj\<lparr>proto := OtherPrototype v\<rparr>)
          else Inr (obj\<lparr>props := assign (props obj) key v\<rparr>))"

text \<open>
  For the examples, the prototype is an ordinary function. An own property of the object
  is overwritten. Otherwise the key is looked up on the function and its prototypes:
  \<^verbatim>\<open>name\<close> and \<^verbatim>\<open>length\<close> are read-only on every function and \<^verbatim>\<open>caller\<close> and
  \<^verbatim>\<open>arguments\<close> cannot be assigned, so the assignment throws a \<^verbatim>\<open>TypeError\<close>;
  \<^verbatim>\<open>__proto__\<close> is the accessor of \<^verbatim>\<open>Object.prototype\<close> as before; any other key
  creates an own property.
\<close>

definition function_prototype :: inherited where
  "function_prototype p obj key v =
     (if map_of (props obj) key \<noteq> None then Inr (obj\<lparr>props := assign (props obj) key v\<rparr>)
      else if key \<in> {ascii ''name'', ascii ''length'', ascii ''caller'', ascii ''arguments''}
      then Inl (JError ''TypeError'' ''Cannot assign to read only property'')
      else if key = ascii ''__proto__'' then
        Inr (if v = JNull then obj\<lparr>proto := NullPrototype\<rparr>
             else if is_primitive v then obj
             else obj\<lparr>proto := OtherPrototype v\<rparr>)
      else Inr (obj\<lparr>props := assign (props obj) key v\<rparr>))"

text \<open>\<^verbatim>\<open>results.then\<close>, looked up on the object and then on its prototype.\<close>

definition object_then :: "jsobject \<Rightarrow> jsval" where
  "object_then obj =
     (case map_of (props obj) (ascii ''then'') of
        Some v \<Rightarrow> v
      | None \<Rightarrow> (case proto obj of OtherPrototype p \<Rightarrow> get_then p | _ \<Rightarrow> JUndefined))"

section \<open>promiseAllRecord\<close>

text \<open>
  The promise returned by \<^verbatim>\<open>promiseAllRecord\<close> is pending, fulfilled with the
  \<^verbatim>\<open>results\<close> object (the very object the callbacks write to), rejected with a reason,
  or, when \<^verbatim>\<open>resolve(results)\<close> finds a callable \<^verbatim>\<open>results.then\<close>, locked to that
  thenable.
\<close>

datatype outcome = Pending | Fulfilled | Following | Rejected jsval

record engine =
  results :: jsobject
  completed :: nat
  outcome :: outcome

type_synonym task = "jsstring \<times> fate"

text \<open>
  A transform may consume state of its environment (the encrypting transform draws random
  bytes), so it takes that state and returns it.
\<close>

type_synonym 's transform = "'s \<Rightarrow> jsval \<Rightarrow> completion \<times> 's"

text \<open>\<^verbatim>\<open>resolve\<close> and \<^verbatim>\<open>reject\<close> of the promise settle it once; later calls do nothing.\<close>

definition resolve :: "engine \<Rightarrow> engine" where
  "resolve st =
     (if outcome st \<noteq> Pending then st
      else if callable (object_then (results st)) then st\<lparr>outcome := Following\<rparr>
      else st\<lparr>outcome := Fulfilled\<rparr>)"

definition reject :: "jsval \<Rightarrow> engine \<Rightarrow> engine" where
  "reject err st = (if outcome st \<noteq> Pending then st else st\<lparr>outcome := Rejected err\<rparr>)"

text \<open>
  The body of the \<^verbatim>\<open>forEach\<close> callback for one entry, up to the registration of the
  handlers: it throws \<^verbatim>\<open>Error('Invalid input')\<close>, or the transform throws, or a task is
  launched whose fate is that of \<^verbatim>\<open>Promise.resolve(...)\<close>.
\<close>

definition launch_entry ::
  "(jsval \<Rightarrow> fate) \<Rightarrow> 's transform option \<Rightarrow> 's \<Rightarrow> jsstring \<times> jsval \<Rightarrow> (jsval + task) \<times> 's" where
  "launch_entry thenable functionToCall s entry =
     (case entry of (key, promiseOrValue) \<Rightarrow>
        if \<not> isPromise promiseOrValue \<and> functionToCall = None
        then (Inl (JError ''Error'' ''Invalid input''), s)
        else if isPromise promiseOrValue
        then (Inr (key, promise_resolve thenable promiseOrValue), s)
        else (case functionToCall of
                None \<Rightarrow> (Inr (key, promise_resolve thenable JUndefined), s)
              | Some f \<Rightarrow>
                  (case f s promiseOrValue of
                     (Throw err, s') \<Rightarrow> (Inl err, s')
                   | (Return x, s') \<Rightarrow> (Inr (key, promise_resolve thenable x), s'))))"

text \<open>
  \<^verbatim>\<open>entries.forEach(...)\<close>: the entries in order; a throw ends the loop, and the tasks
  launched before it stay launched.
\<close>

fun forEach ::
  "(jsval \<Rightarrow> fate) \<Rightarrow> 's transform option \<Rightarrow> (jsstring \<times> jsval) list \<Rightarrow> task list \<Rightarrow> 's
     \<Rightarrow> (task list \<times> jsval option) \<times> 's" where
  "forEach thenable functionToCall [] launched s = ((launched, None), s)"
| "forEach thenable functionToCall (entry # entries) launched s =
     (case launch_entry thenable functionToCall s entry of
        (Inl err, s') \<Rightarrow> ((launched, Some err), s')
      | (Inr t, s') \<Rightarrow> forEach thenable functionToCall entries (launched @ [t]) s')"

text \<open>
  The synchronous part of \<^verbatim>\<open>promiseAllRecord\<close>: the executor of \<^verbatim>\<open>new Promise\<close> runs at
  once, and an exception it throws rejects the promise. The call returns the promise (here
  its state) and has launched the tasks.
\<close>

definition promiseAllRecord ::
  "(jsval \<Rightarrow> fate) \<Rightarrow> (jsstring \<times> jsval) list \<Rightarrow> 's transform option \<Rightarrow> 's
     \<Rightarrow> (engine \<times> task list) \<times> 's" where
  "promiseAllRecord thenable object functionToCall s =
     (let st = \<lparr>results = empty_object, completed = 0, outcome = Pending\<rparr>;
          entries = object
      in case forEach thenable functionToCall entries [] s of
           ((launched, None), s') \<Rightarrow> ((st, launched), s')
         | ((launched, Some err), s') \<Rightarrow> ((reject err st, launched), s'))"

text \<open>
  The handlers of one task, run when its promise settles; \<open>n\<close> is \<^verbatim>\<open>entries.length\<close>.
  A fulfilment runs the \<^verbatim>\<open>then\<close> callback, a rejection passes it by and reaches the
  \<^verbatim>\<open>catch\<close> callback. The \<^verbatim>\<open>catch\<close> is chained behind the \<^verbatim>\<open>then\<close>, so it also
  receives what the \<^verbatim>\<open>then\<close> callback throws: when the assignment
  \<^verbatim>\<open>results[key] = result\<close> throws, \<^verbatim>\<open>completed += 1\<close> is not reached and
  \<^verbatim>\<open>reject\<close> is called with the exception.
\<close>

definition on_settled :: "inherited \<Rightarrow> nat \<Rightarrow> task \<Rightarrow> engine \<Rightarrow> engine" where
  "on_settled inherited n t st =
     (case t of (key, f) \<Rightarrow>
        (case f of
           Fulfils result \<Rightarrow>
             (case set_property inherited (results st) key result of
                Inl err \<Rightarrow> reject err st
              | Inr r \<Rightarrow>
                  (let st' = st\<lparr>results := r, completed := completed st + 1\<rparr>
                   in if completed st' = n then resolve st' else st'))
         | Rejects err \<Rightarrow> reject err st
         | Never \<Rightarrow> st))"

text \<open>
  The event loop afterwards. A schedule lists the launched tasks (by position) in the
  order in which their handlers run. The engine does not choose that order, so the
  theorems hold for all schedules in which every task settles at most once and the tasks
  that stay pending do not occur.
\<close>

fun run :: "inherited \<Rightarrow> nat \<Rightarrow> task list \<Rightarrow> nat list \<Rightarrow> engine \<Rightarrow> engine" where
  "run inherited n ts [] st = st"
| "run inherited n ts (i # sched) st =
     run inherited n ts sched
       (if i < length ts then on_settled inherited n (ts ! i) st else st)"

definition schedule :: "task list \<Rightarrow> nat list \<Rightarrow> bool" where
  "schedule ts sched \<longleftrightarrow>
     distinct sched \<and> list_all (\<lambda>i. i < length ts \<and> snd (ts ! i) \<noteq> Never) sched"

text \<open>A schedule is complete when every task that settles has settled.\<close>

definition complete :: "task list \<Rightarrow> nat list \<Rightarrow> bool" where
  "complete ts sched \<longleftrightarrow>
     schedule ts sched \<and> list_all (\<lambda>i. snd (ts ! i) = Never \<or> i \<in> set sched) [0..<length ts]"

text \<open>The promise after the call and after the handlers of a schedule have run.\<close>

definition promiseAllRecord_after ::
  "inherited \<Rightarrow> (jsval \<Rightarrow> fate) \<Rightarrow> (jsstring \<times> jsval) list \<Rightarrow> 's transform option \<Rightarrow> 's
     \<Rightarrow> nat list \<Rightarrow> engine" where
  "promiseAllRecord_after inherited thenable object functionToCall s sched =
     (case promiseAllRecord thenable object functionToCall s of
        ((st, ts), s') \<Rightarrow> run inherited (length object) ts sched st)"

definition is_fulfils :: "fate \<Rightarrow> bool" where
  "is_fulfils f = (case f of Fulfils _ \<Rightarrow> True | _ \<Rightarrow> False)"

section \<open>What becomes of an entry\<close>




section \<open>Strings and buffers\<close>

text \<open>
  The codec passes strings to Node's \<^verbatim>\<open>crypto\<close> and \<^verbatim>\<open>Buffer\<close>, which turn them into bytes
  and back. These conversions are not code of the repository; they are modelled after the
  standards Node implements (UTF-8 with the replacement character U+FFFD for what cannot be
  encoded or decoded, RFC 4648 base64 with the URL-safe alphabet).
\<close>

subsection \<open>UTF-8\<close>

definition is_high_surrogate :: "16 word \<Rightarrow> bool" where
  "is_high_surrogate u \<longleftrightarrow> 0xD800 \<le> u \<and> u \<le> 0xDBFF"

definition is_low_surrogate :: "16 word \<Rightarrow> bool" where
  "is_low_surrogate u \<longleftrightarrow> 0xDC00 \<le> u \<and> u \<le> 0xDFFF"

definition utf8_of_code_point :: "nat \<Rightarrow> byte list" where
  "utf8_of_code_point cp =
     (if cp < 0x80 then [of_nat cp]
      else if cp < 0x800 then
        [of_nat (0xC0 + cp div 0x40), of_nat (0x80 + cp mod 0x40)]
      else if cp < 0x10000 then
        [of_nat (0xE0 + cp div 0x1000), of_nat (0x80 + cp div 0x40 mod 0x40),
         of_nat (0x80 + cp mod 0x40)]
      else
        [of_nat (0xF0 + cp div 0x40000), of_nat (0x80 + cp div 0x1000 mod 0x40),
         of_nat (0x80 + cp div 0x40 mod 0x40), of_nat (0x80 + cp mod 0x40)])"

definition utf16_of_code_point :: "nat \<Rightarrow> jsstring" where
  "utf16_of_code_point cp =
     (if cp < 0x10000 then [of_nat cp]
      else [of_nat (0xD800 + (cp - 0x10000) div 0x400),
            of_nat (0xDC00 + (cp - 0x10000) mod 0x400)])"

text \<open>
  String to bytes, as \<^verbatim>\<open>Buffer.from(s, 'utf8')\<close> and the string arguments of
  \<^verbatim>\<open>createCipheriv\<close> and \<^verbatim>\<open>update\<close>: a surrogate pair is one code point, a surrogate
  without its partner becomes U+FFFD (EF BF BD).
\<close>

fun utf8_encode :: "jsstring \<Rightarrow> byte list" where
  "utf8_encode [] = []"
| "utf8_encode [u] =
     (if is_high_surrogate u \<or> is_low_surrogate u then [0xEF, 0xBF, 0xBD]
      else utf8_of_code_point (unat u))"
| "utf8_encode (u # l # us) =
     (if is_high_surrogate u \<and> is_low_surrogate l then
        utf8_of_code_point (0x10000 + (unat u - 0xD800) * 0x400 + (unat l - 0xDC00))
          @ utf8_encode us
      else if is_high_surrogate u \<or> is_low_surrogate u then
        [0xEF, 0xBF, 0xBD] @ utf8_encode (l # us)
      else utf8_of_code_point (unat u) @ utf8_encode (l # us))"

text \<open>A string without unpaired surrogates: the strings that are Unicode text.\<close>

fun well_formed :: "jsstring \<Rightarrow> bool" where
  "well_formed [] = True"
| "well_formed [u] = (\<not> is_high_surrogate u \<and> \<not> is_low_surrogate u)"
| "well_formed (u # l # us) =
     (if is_high_surrogate u then is_low_surrogate l \<and> well_formed us
      else \<not> is_low_surrogate u \<and> well_formed (l # us))"

definition in_range :: "byte \<Rightarrow> nat \<Rightarrow> nat \<Rightarrow> bool" where
  "in_range b lo hi \<longleftrightarrow> lo \<le> unat b \<and> unat b \<le> hi"

text \<open>
  Bytes to string, as \<^verbatim>\<open>buffer.toString()\<close>: the UTF-8 decoder of the Encoding standard.
  A byte that cannot start or continue a sequence ends the sequence before it; what was
  read of the sequence becomes one U+FFFD and decoding goes on at that byte.
\<close>

fun utf8_decode :: "byte list \<Rightarrow> jsstring" where
  "utf8_decode [] = []"
| "utf8_decode (b # bs) =
     (if unat b < 0x80 then ucast b # utf8_decode bs
      else if 0xC2 \<le> unat b \<and> unat b \<le> 0xDF then
        (case bs of
           [] \<Rightarrow> [0xFFFD]
         | b1 # r1 \<Rightarrow>
             if in_range b1 0x80 0xBF then
               utf16_of_code_point ((unat b - 0xC0) * 0x40 + (unat b1 - 0x80)) @ utf8_decode r1
             else 0xFFFD # utf8_decode bs)
      else if 0xE0 \<le> unat b \<and> unat b \<le> 0xEF then
        (case bs of
           [] \<Rightarrow> [0xFFFD]
         | b1 # r1 \<Rightarrow>
             if in_range b1 (if unat b = 0xE0 then 0xA0 else 0x80)
                            (if unat b = 0xED then 0x9F else 0xBF) then
               (case r1 of
                  [] \<Rightarrow> [0xFFFD]
                | b2 # r2 \<Rightarrow>
                    if in_range b2 0x80 0xBF then
                      utf16_of_code_point
                        ((unat b - 0xE0) * 0x1000 + (unat b1 - 0x80) * 0x40 + (unat b2 - 0x80))
                        @ utf8_decode r2
                    else 0xFFFD # utf8_decode r1)
             else 0xFFFD # utf8_decode bs)
      else if 0xF0 \<le> unat b \<and> unat b \<le> 0xF4 then
        (case bs of
           [] \<Rightarrow> [0xFFFD]
         | b1 # r1 \<Rightarrow>
             if in_range b1 (if unat b = 0xF0 then 0x90 else 0x80)
                            (if unat b = 0xF4 then 0x8F else 0xBF) then
               (case r1 of
                  [] \<Rightarrow> [0xFFFD]
                | b2 # r2 \<Rightarrow>
                    if in_range b2 0x80 0xBF then
                      (case r2 of
                         [] \<Rightarrow> [0xFFFD]
                       | b3 # r3 \<Rightarrow>
                           if in_range b3 0x80 0xBF then
                             utf16_of_code_point
                               ((unat b - 0xF0) * 0x40000 + (unat b1 - 0x80) * 0x1000
                                 + (unat b2 - 0x80) * 0x40 + (unat b3 - 0x80))
                               @ utf8_decode r3
                           else 0xFFFD # utf8_decode r2)
                    else 0xFFFD # utf8_decode r1)
             else 0xFFFD # utf8_decode bs)
      else 0xFFFD # utf8_decode bs)"

declare utf8_decode.simps(2) [simp del]

subsection \<open>base64url\<close>

text \<open>The URL-safe alphabet: A-Z, a-z, 0-9, \<^verbatim>\<open>-\<close> and \<^verbatim>\<open>_\<close>.\<close>

definition base64url_alphabet :: jsstring where
  "base64url_alphabet =
     ascii ''ABCDEFGHIJKLMNOPQRSTUVWXYZabcdefghijklmnopqrstuvwxyz0123456789-_''"

text \<open>The character of a six-bit value, by its code.\<close>

definition base64url_char :: "nat \<Rightarrow> 16 word" where
  "base64url_char n =
     (if n < 26 then of_nat (65 + n)
      else if n < 52 then of_nat (71 + n)
      else if n < 62 then of_nat (n - 4)
      else if n = 62 then 45
      else 95)"

text \<open>\<^verbatim>\<open>buffer.toString('base64url')\<close>: three bytes give four characters; no padding.\<close>

fun base64url_encode :: "byte list \<Rightarrow> jsstring" where
  "base64url_encode [] = []"
| "base64url_encode [a] =
     [base64url_char (unat a div 4), base64url_char (unat a mod 4 * 16)]"
| "base64url_encode [a, b] =
     [base64url_char (unat a div 4),
      base64url_char (unat a mod 4 * 16 + unat b div 16),
      base64url_char (unat b mod 16 * 4)]"
| "base64url_encode (a # b # c # bs) =
     [base64url_char (unat a div 4),
      base64url_char (unat a mod 4 * 16 + unat b div 16),
      base64url_char (unat b mod 16 * 4 + unat c div 64),
      base64url_char (unat c mod 64)] @ base64url_encode bs"

text \<open>
  \<^verbatim>\<open>Buffer.from(s, 'base64url')\<close>. Node's decoder takes the characters of both base64
  alphabets, reads a character by its low byte, passes over every other character and
  stops at the first \<^verbatim>\<open>=\<close>; a last group of two or three characters gives one or
  two bytes, a single left-over character none.
\<close>

definition unbase64 :: "16 word \<Rightarrow> nat option" where
  "unbase64 c =
     (let x = unat c mod 256 in
      if 65 \<le> x \<and> x \<le> 90 then Some (x - 65)
      else if 97 \<le> x \<and> x \<le> 122 then Some (x - 71)
      else if 48 \<le> x \<and> x \<le> 57 then Some (x + 4)
      else if x = 43 \<or> x = 45 then Some 62
      else if x = 47 \<or> x = 95 then Some 63
      else None)"

fun sextets :: "jsstring \<Rightarrow> nat list" where
  "sextets [] = []"
| "sextets (c # cs) =
     (case unbase64 c of
        Some n \<Rightarrow> n # sextets cs
      | None \<Rightarrow> if unat c mod 256 = 61 then [] else sextets cs)"

fun bytes_of_sextets :: "nat list \<Rightarrow> byte list" where
  "bytes_of_sextets (a # b # c # d # r) =
     [of_nat (a * 4 + b div 16), of_nat (b mod 16 * 16 + c div 4), of_nat (c mod 4 * 64 + d)]
       @ bytes_of_sextets r"
| "bytes_of_sextets [a, b, c] = [of_nat (a * 4 + b div 16), of_nat (b mod 16 * 16 + c div 4)]"
| "bytes_of_sextets [a, b] = [of_nat (a * 4 + b div 16)]"
| "bytes_of_sextets _ = []"

definition base64_decode :: "jsstring \<Rightarrow> byte list" where
  "base64_decode s = bytes_of_sextets (sextets s)"

text \<open>
  \<^verbatim>\<open>buffer.subarray(start, end)\<close>: a negative index counts from the end, and both are
  clamped to the buffer.
\<close>

definition clamp_index :: "nat \<Rightarrow> int \<Rightarrow> nat" where
  "clamp_index len i = (if i < 0 then nat (int len + i) else min (nat i) len)"

definition subarray :: "byte list \<Rightarrow> int \<Rightarrow> int \<Rightarrow> byte list" where
  "subarray buffer start end =
     take (clamp_index (length buffer) end - clamp_index (length buffer) start)
       (drop (clamp_index (length buffer) start) buffer)"

section \<open>AES-256 in Galois/Counter Mode\<close>

text \<open>
  \<^verbatim>\<open>createCipheriv('aes-256-gcm', key, iv)\<close> selects the block cipher of FIPS 197 with a
  256-bit key in the mode of NIST SP 800-38D. Node delegates both to OpenSSL; they are
  modelled from the two standards, in their notation.
\<close>

subsection \<open>The block cipher (FIPS 197)\<close>

type_synonym block = "128 word"

text \<open>The S-box (FIPS 197, figure 7): row by the high nibble, column by the low nibble.\<close>

definition sbox :: "byte list list" where
  "sbox =
    [
     [0x63, 0x7c, 0x77, 0x7b, 0xf2, 0x6b, 0x6f, 0xc5, 0x30, 0x01, 0x67, 0x2b, 0xfe, 0xd7, 0xab, 0x76],
     [0xca, 0x82, 0xc9, 0x7d, 0xfa, 0x59, 0x47, 0xf0, 0xad, 0xd4, 0xa2, 0xaf, 0x9c, 0xa4, 0x72, 0xc0],
     [0xb7, 0xfd, 0x93, 0x26, 0x36, 0x3f, 0xf7, 0xcc, 0x34, 0xa5, 0xe5, 0xf1, 0x71, 0xd8, 0x31, 0x15],
     [0x04, 0xc7, 0x23, 0xc3, 0x18, 0x96, 0x05, 0x9a, 0x07, 0x12, 0x80, 0xe2, 0xeb, 0x27, 0xb2, 0x75],
     [0x09, 0x83, 0x2c, 0x1a, 0x1b, 0x6e, 0x5a, 0xa0, 0x52, 0x3b, 0xd6, 0xb3, 0x29, 0xe3, 0x2f, 0x84],
     [0x53, 0xd1, 0x00, 0xed, 0x20, 0xfc, 0xb1, 0x5b, 0x6a, 0xcb, 0xbe, 0x39, 0x4a, 0x4c, 0x58, 0xcf],
     [0xd0, 0xef, 0xaa, 0xfb, 0x43, 0x4d, 0x33, 0x85, 0x45, 0xf9, 0x02, 0x7f, 0x50, 0x3c, 0x9f, 0xa8],
     [0x51, 0xa3, 0x40, 0x8f, 0x92, 0x9d, 0x38, 0xf5, 0xbc, 0xb6, 0xda, 0x21, 0x10, 0xff, 0xf3, 0xd2],
     [0xcd, 0x0c, 0x13, 0xec, 0x5f, 0x97, 0x44, 0x17, 0xc4, 0xa7, 0x7e, 0x3d, 0x64, 0x5d, 0x19, 0x73],
     [0x60, 0x81, 0x4f, 0xdc, 0x22, 0x2a, 0x90, 0x88, 0x46, 0xee, 0xb8, 0x14, 0xde, 0x5e, 0x0b, 0xdb],
     [0xe0, 0x32, 0x3a, 0x0a, 0x49, 0x06, 0x24, 0x5c, 0xc2, 0xd3, 0xac, 0x62, 0x91, 0x95, 0xe4, 0x79],
     [0xe7, 0xc8, 0x37, 0x6d, 0x8d, 0xd5, 0x4e, 0xa9, 0x6c, 0x56, 0xf4, 0xea, 0x65, 0x7a, 0xae, 0x08],
     [0xba, 0x78, 0x25, 0x2e, 0x1c, 0xa6, 0xb4, 0xc6, 0xe8, 0xdd, 0x74, 0x1f, 0x4b, 0xbd, 0x8b, 0x8a],
     [0x70, 0x3e, 0xb5, 0x66, 0x48, 0x03, 0xf6, 0x0e, 0x61, 0x35, 0x57, 0xb9, 0x86, 0xc1, 0x1d, 0x9e],
     [0xe1, 0xf8, 0x98, 0x11, 0x69, 0xd9, 0x8e, 0x94, 0x9b, 0x1e, 0x87, 0xe9, 0xce, 0x55, 0x28, 0xdf],
     [0x8c, 0xa1, 0x89, 0x0d, 0xbf, 0xe6, 0x42, 0x68, 0x41, 0x99, 0x2d, 0x0f, 0xb0, 0x54, 0xbb, 0x16]]"

definition SubByte :: "byte \<Rightarrow> byte" where
  "SubByte b = sbox ! unat (drop_bit 4 b) ! unat (b AND 0x0f)"

text \<open>Multiplication by \<open>x\<close> in GF(2^8) modulo \<open>x^8 + x^4 + x^3 + x + 1\<close>.\<close>

definition xtime :: "byte \<Rightarrow> byte" where
  "xtime b = (if bit b 7 then push_bit 1 b XOR 0x1b else push_bit 1 b)"

text \<open>
  The state is the list of its sixteen bytes in input order, that is column by column:
  byte \<open>r + 4 c\<close> is row \<open>r\<close> of column \<open>c\<close>.
\<close>

definition SubBytes :: "byte list \<Rightarrow> byte list" where
  "SubBytes s = map SubByte s"

definition ShiftRows :: "byte list \<Rightarrow> byte list" where
  "ShiftRows s = map (\<lambda>i. s ! i) [0, 5, 10, 15, 4, 9, 14, 3, 8, 13, 2, 7, 12, 1, 6, 11]"

fun MixColumn :: "byte list \<Rightarrow> byte list" where
  "MixColumn [a0, a1, a2, a3] =
     [xtime a0 XOR (xtime a1 XOR a1) XOR a2 XOR a3,
      a0 XOR xtime a1 XOR (xtime a2 XOR a2) XOR a3,
      a0 XOR a1 XOR xtime a2 XOR (xtime a3 XOR a3),
      (xtime a0 XOR a0) XOR a1 XOR a2 XOR xtime a3]"
| "MixColumn c = c"

definition MixColumns :: "byte list \<Rightarrow> byte list" where
  "MixColumns s = concat (map (\<lambda>c. MixColumn (take 4 (drop (4 * c) s))) [0, 1, 2, 3])"

definition AddRoundKey :: "byte list \<Rightarrow> byte list \<Rightarrow> byte list" where
  "AddRoundKey s k = map2 (XOR) s k"

definition RotWord :: "byte list \<Rightarrow> byte list" where
  "RotWord w = drop 1 w @ take 1 w"

definition SubWord :: "byte list \<Rightarrow> byte list" where
  "SubWord w = map SubByte w"

text \<open>
  The key schedule for \<open>Nk = 8\<close>: word \<open>i\<close> is word \<open>i - 8\<close> XOR a function of word
  \<open>i - 1\<close>; \<open>rc\<close> is the round constant of the next multiple of 8.
\<close>

fun expand :: "nat \<Rightarrow> byte \<Rightarrow> nat \<Rightarrow> byte list list \<Rightarrow> byte list list" where
  "expand i rc 0 w = w"
| "expand i rc (Suc n) w =
     (let temp = w ! (i - 1);
          temp' = (if i mod 8 = 0 then map2 (XOR) (SubWord (RotWord temp)) [rc, 0, 0, 0]
                   else if i mod 8 = 4 then SubWord temp
                   else temp)
      in expand (i + 1) (if i mod 8 = 0 then xtime rc else rc) n
           (w @ [map2 (XOR) (w ! (i - 8)) temp']))"

text \<open>The fifteen round keys of a 32-byte key, each of four words.\<close>

definition KeyExpansion :: "byte list \<Rightarrow> byte list list" where
  "KeyExpansion key =
     (let w = expand 8 1 52 (map (\<lambda>i. take 4 (drop (4 * i) key)) [0..<8])
      in map (\<lambda>r. concat (take 4 (drop (4 * r) w))) [0..<15])"

fun rounds :: "byte list list \<Rightarrow> byte list \<Rightarrow> byte list" where
  "rounds [] s = s"
| "rounds [k] s = AddRoundKey (ShiftRows (SubBytes s)) k"
| "rounds (k # ks) s = rounds ks (AddRoundKey (MixColumns (ShiftRows (SubBytes s))) k)"

definition Cipher :: "byte list list \<Rightarrow> byte list \<Rightarrow> byte list" where
  "Cipher rks inp = (case rks of [] \<Rightarrow> inp | k0 # ks \<Rightarrow> rounds ks (AddRoundKey inp k0))"

text \<open>Blocks as 128-bit words: the first byte is the most significant.\<close>

definition block_of_bytes :: "byte list \<Rightarrow> block" where
  "block_of_bytes bs = foldl (\<lambda>acc b. push_bit 8 acc OR ucast b) 0 (take 16 (bs @ replicate 16 0))"

definition bytes_of_block :: "block \<Rightarrow> byte list" where
  "bytes_of_block w = map (\<lambda>i. ucast (drop_bit (8 * (15 - i)) w)) [0..<16]"

definition aes256 :: "byte list \<Rightarrow> block \<Rightarrow> block" where
  "aes256 key x = block_of_bytes (Cipher (KeyExpansion key) (bytes_of_block x))"

subsection \<open>Galois/Counter Mode (SP 800-38D)\<close>

text \<open>
  Multiplication of blocks (algorithm 1). Bit \<open>i\<close> of the standard, counted from the left,
  is bit \<open>127 - i\<close> of the word, and \<open>R = 11100001 || 0^120\<close>. With \<open>n\<close> steps to go the
  loop looks at bit \<open>n - 1\<close> of \<open>x\<close>.
\<close>

fun gf_mult_loop :: "nat \<Rightarrow> block \<Rightarrow> block \<Rightarrow> block \<Rightarrow> block" where
  "gf_mult_loop 0 x z v = z"
| "gf_mult_loop (Suc n) x z v =
     gf_mult_loop n x
       (if bit x n then z XOR v else z)
       (if bit v 0 then drop_bit 1 v XOR 0xE1000000000000000000000000000000 else drop_bit 1 v)"

definition gf_mult :: "block \<Rightarrow> block \<Rightarrow> block" where
  "gf_mult x y = gf_mult_loop 128 x 0 y"

text \<open>GHASH (algorithm 2), continued from \<open>y\<close>; a last partial block is padded with zeros.\<close>

fun ghash :: "block \<Rightarrow> block \<Rightarrow> byte list \<Rightarrow> block" where
  "ghash h y [] = y"
| "ghash h y (b # bs) =
     ghash h (gf_mult (y XOR block_of_bytes (take 16 (b # bs))) h) (drop 15 bs)"

definition length_block :: "nat \<Rightarrow> nat \<Rightarrow> block" where
  "length_block a c = push_bit 64 (of_nat (8 * a)) OR of_nat (8 * c mod 2 ^ 64)"

definition inc32 :: "block \<Rightarrow> block" where
  "inc32 x = (x AND NOT 0xFFFFFFFF) OR ((x + 1) AND 0xFFFFFFFF)"

text \<open>GCTR (algorithm 3): the data XOR the encrypted counter blocks.\<close>

fun gctr :: "byte list \<Rightarrow> block \<Rightarrow> byte list \<Rightarrow> byte list" where
  "gctr key cb [] = []"
| "gctr key cb (b # bs) =
     map2 (XOR) (take 16 (b # bs)) (bytes_of_block (aes256 key cb))
       @ gctr key (inc32 cb) (drop 15 bs)"

text \<open>The pre-counter block \<open>J0\<close> of an initialization vector (algorithm 4, step 2).\<close>

definition J0 :: "byte list \<Rightarrow> byte list \<Rightarrow> block" where
  "J0 key iv =
     (if length iv = 12 then block_of_bytes (iv @ [0, 0, 0, 1])
      else ghash (aes256 key 0) (ghash (aes256 key 0) 0 iv) (bytes_of_block (length_block 0 (length iv))))"

text \<open>
  Algorithm 4 without additional authenticated data: the ciphertext, and the full
  16-byte tag of a ciphertext.
\<close>

definition gcm_crypt :: "byte list \<Rightarrow> byte list \<Rightarrow> byte list \<Rightarrow> byte list" where
  "gcm_crypt key iv data = gctr key (inc32 (J0 key iv)) data"

definition gcm_tag :: "byte list \<Rightarrow> byte list \<Rightarrow> byte list \<Rightarrow> byte list" where
  "gcm_tag key iv c =
     bytes_of_block
       (ghash (aes256 key 0) (ghash (aes256 key 0) 0 c)
          (bytes_of_block (length_block 0 (length c)))
        XOR aes256 key (J0 key iv))"

section \<open>The codec\<close>

subsection \<open>Node's \<^verbatim>\<open>crypto\<close> and \<^verbatim>\<open>Buffer\<close> as the codec uses them\<close>

text \<open>
  The system's random source is the stream of bytes it will deliver; \<^verbatim>\<open>randomBytes(n)\<close>
  takes the next \<open>n\<close> of them.
\<close>

type_synonym rng = "nat \<Rightarrow> byte"

definition randomBytes :: "nat \<Rightarrow> rng \<Rightarrow> byte list \<times> rng" where
  "randomBytes n g = (map g [0..<n], \<lambda>i. g (n + i))"

text \<open>
  A cipher object of \<^verbatim>\<open>aes-256-gcm\<close> holds the key and the initialization vector. A string
  key is taken as its UTF-8 bytes. Creation fails for a key that is no string (the model has
  no buffers), for an empty initialization vector, and for a key that is not 32 bytes long.
\<close>

record cipher =
  cipher_key :: "byte list"
  cipher_iv :: "byte list"

definition createCipheriv :: "jsval \<Rightarrow> byte list \<Rightarrow> jsval + cipher" where
  "createCipheriv key iv =
     (case key of
        JStr k \<Rightarrow>
          if iv = [] then Inl (JError ''TypeError'' ''Invalid initialization vector'')
          else if length (utf8_encode k) \<noteq> 32 then
            Inl (JError ''RangeError'' ''Invalid key length'')
          else Inr \<lparr>cipher_key = utf8_encode k, cipher_iv = iv\<rparr>
      | _ \<Rightarrow> Inl (JError ''TypeError'' ''ERR_INVALID_ARG_TYPE''))"

definition createDecipheriv :: "jsval \<Rightarrow> byte list \<Rightarrow> jsval + cipher" where
  "createDecipheriv key iv = createCipheriv key iv"

text \<open>
  Encryption: \<^verbatim>\<open>update\<close> of a string returns the ciphertext of its UTF-8 bytes (Galois/
  Counter Mode is a stream mode), \<^verbatim>\<open>final\<close> returns the empty buffer, and
  \<^verbatim>\<open>getAuthTag\<close> the 16-byte tag of the ciphertext produced.
\<close>

definition cipher_update :: "cipher \<Rightarrow> jsval \<Rightarrow> jsval + byte list" where
  "cipher_update c data =
     (case data of
        JStr s \<Rightarrow> Inr (gcm_crypt (cipher_key c) (cipher_iv c) (utf8_encode s))
      | _ \<Rightarrow> Inl (JError ''TypeError'' ''ERR_INVALID_ARG_TYPE''))"

definition cipher_final :: "cipher \<Rightarrow> byte list" where
  "cipher_final c = []"

definition getAuthTag :: "cipher \<Rightarrow> byte list \<Rightarrow> byte list" where
  "getAuthTag c ciphertext = gcm_tag (cipher_key c) (cipher_iv c) ciphertext"

text \<open>
  Decryption: \<^verbatim>\<open>setAuthTag\<close> accepts tags of 4, 8 and 12 to 16 bytes; \<^verbatim>\<open>update\<close> returns
  the decrypted bytes; \<^verbatim>\<open>final\<close> compares the expected tag, cut to the length of the one
  set, and throws when they differ.
\<close>

definition setAuthTag :: "byte list \<Rightarrow> jsval + byte list" where
  "setAuthTag tag =
     (if length tag \<in> {4, 8, 12, 13, 14, 15, 16} then Inr tag
      else Inl (JError ''TypeError'' ''Invalid authentication tag length''))"

definition decipher_update :: "cipher \<Rightarrow> byte list \<Rightarrow> byte list" where
  "decipher_update c data = gcm_crypt (cipher_key c) (cipher_iv c) data"

definition decipher_final :: "cipher \<Rightarrow> byte list \<Rightarrow> byte list \<Rightarrow> jsval + byte list" where
  "decipher_final c ciphertext tag =
     (if take (length tag) (gcm_tag (cipher_key c) (cipher_iv c) ciphertext) = tag then Inr []
      else Inl (JError ''Error'' ''Unsupported state or unable to authenticate data''))"

text \<open>
  \<^verbatim>\<open>Buffer.from(v, 'base64url')\<close>. A string is decoded. A value whose \<^verbatim>\<open>typeof\<close> is
  \<^verbatim>\<open>'object'\<close> is handed to \<^verbatim>\<open>valueOf\<close> and then read as an array-like object (one
  with a \<^verbatim>\<open>length\<close>) or as the description of a buffer, and only when it is none of
  these is the call a type error; what comes of that depends on properties of the object
  that the model of values does not fix (the conversion of its elements to bytes, a
  \<^verbatim>\<open>valueOf\<close> of its own), so it is the parameter \<open>from_object\<close>: the bytes, or what is
  thrown. Every other value is a type error.
\<close>

type_synonym from_object = "jsval \<Rightarrow> jsval + byte list"

definition Buffer_from :: "from_object \<Rightarrow> jsval \<Rightarrow> jsval + byte list" where
  "Buffer_from from_object v =
     (case v of
        JStr s \<Rightarrow> Inr (base64_decode s)
      | JObject _ \<Rightarrow> from_object v
      | JError _ _ \<Rightarrow> from_object v
      | JPromise _ \<Rightarrow> from_object v
      | _ \<Rightarrow> Inl (JError ''TypeError'' ''ERR_INVALID_ARG_TYPE''))"

text \<open>
  For the examples: the objects that have neither a \<^verbatim>\<open>length\<close> nor a \<^verbatim>\<open>valueOf\<close> of
  their own and describe no buffer.
\<close>

definition no_buffer :: from_object where
  "no_buffer v = Inl (JError ''TypeError'' ''ERR_INVALID_ARG_TYPE'')"

subsection \<open>\<^verbatim>\<open>aesEncryptData\<close> and \<^verbatim>\<open>aesDecryptData\<close>\<close>

text \<open>
  \<^verbatim>\<open>if (!string || !key) return null;\<close>
  \<^verbatim>\<open>const aesIV = randomBytes(12);\<close>
  \<^verbatim>\<open>const cipher = createCipheriv('aes-256-gcm', key, aesIV);\<close>
  \<^verbatim>\<open>return Buffer.concat([aesIV, Buffer.concat([cipher.update(string), cipher.final()]),\<close>
  \<^verbatim>\<open>  cipher.getAuthTag()]).toString('base64url');\<close>
\<close>

definition aesEncryptData :: "rng \<Rightarrow> jsval \<Rightarrow> jsval \<Rightarrow> completion \<times> rng" where
  "aesEncryptData g string key =
     (if \<not> truthy string \<or> \<not> truthy key then (Return JNull, g)
      else
        (case randomBytes 12 g of (aesIV, g') \<Rightarrow>
           (case createCipheriv key aesIV of
              Inl err \<Rightarrow> (Throw err, g')
            | Inr cipher \<Rightarrow>
                (case cipher_update cipher string of
                   Inl err \<Rightarrow> (Throw err, g')
                 | Inr ciphertext \<Rightarrow>
                     (Return (JStr (base64url_encode
                        (aesIV @ (ciphertext @ cipher_final cipher)
                           @ getAuthTag cipher ciphertext))), g')))))"

text \<open>
  \<^verbatim>\<open>if (!encryptedString || !key) return null;\<close>
  \<^verbatim>\<open>const buffer = Buffer.from(encryptedString, 'base64url');\<close>
  \<^verbatim>\<open>const cipher = createDecipheriv('aes-256-gcm', key, buffer.subarray(0, 12));\<close>
  \<^verbatim>\<open>cipher.setAuthTag(buffer.subarray(-16));\<close>
  \<^verbatim>\<open>return cipher.update(buffer.subarray(12, -16)).toString() + cipher.final().toString();\<close>
\<close>

definition aesDecryptData :: "from_object \<Rightarrow> jsval \<Rightarrow> jsval \<Rightarrow> completion" where
  "aesDecryptData from_object encryptedString key =
     (if \<not> truthy encryptedString \<or> \<not> truthy key then Return JNull
      else
        (case Buffer_from from_object encryptedString of
           Inl err \<Rightarrow> Throw err
         | Inr buffer \<Rightarrow>
             (case createDecipheriv key (subarray buffer 0 12) of
                Inl err \<Rightarrow> Throw err
              | Inr cipher \<Rightarrow>
                  (case setAuthTag (subarray buffer (- 16) (int (length buffer))) of
                     Inl err \<Rightarrow> Throw err
                   | Inr tag \<Rightarrow>
                       (let plain = decipher_update cipher (subarray buffer 12 (- 16)) in
                        case decipher_final cipher (subarray buffer 12 (- 16)) tag of
                          Inl err \<Rightarrow> Throw err
                        | Inr rest \<Rightarrow>
                            Return (JStr (utf8_decode plain @ utf8_decode rest)))))))"

text \<open>\<^verbatim>\<open>aesDecryptData(aesEncryptData(p, k), k)\<close>\<close>

definition aesRoundTrip :: "from_object \<Rightarrow> rng \<Rightarrow> jsval \<Rightarrow> jsval \<Rightarrow> completion" where
  "aesRoundTrip from_object g p k =
     (case fst (aesEncryptData g p k) of
        Return blob \<Rightarrow> aesDecryptData from_object blob k
      | Throw err \<Rightarrow> Throw err)"

text \<open>A key of 32 ASCII characters, for the examples.\<close>

definition example_key :: jsstring where
  "example_key = ascii ''0123456789abcdef0123456789abcdef''"

subsection \<open>The bulk wrappers\<close>

text \<open>
  \<^verbatim>\<open>promisify(fn)(...args)\<close> is \<^verbatim>\<open>new Promise((resolve) => resolve(fn(...args)))\<close>: the call
  returns a promise, rejected with what \<open>fn\<close> throws and resolved with what it returns.
\<close>

definition promisify ::
  "(jsval \<Rightarrow> fate) \<Rightarrow> ('a \<Rightarrow> 's \<Rightarrow> completion \<times> 's) \<Rightarrow> 'a \<Rightarrow> 's \<Rightarrow> completion \<times> 's" where
  "promisify thenable fn args s =
     (case fn args s of
        (Return response, s') \<Rightarrow> (Return (JPromise (promise_resolve thenable response)), s')
      | (Throw err, s') \<Rightarrow> (Return (JPromise (Rejects err)), s'))"

definition promisifiedAesEncryptData ::
  "(jsval \<Rightarrow> fate) \<Rightarrow> jsval \<times> jsval \<Rightarrow> rng \<Rightarrow> completion \<times> rng" where
  "promisifiedAesEncryptData thenable =
     promisify thenable (\<lambda>(string, key) g. aesEncryptData g string key)"

definition promisifiedAesDecryptData ::
  "from_object \<Rightarrow> (jsval \<Rightarrow> fate) \<Rightarrow> jsval \<times> jsval \<Rightarrow> 's \<Rightarrow> completion \<times> 's" where
  "promisifiedAesDecryptData from_object thenable =
     promisify thenable
       (\<lambda>(encryptedString, key) s. (aesDecryptData from_object encryptedString key, s))"

text \<open>
  \<^verbatim>\<open>const functionToCall = (value) => promisifiedAesEncryptData(value, key);\<close>
  \<^verbatim>\<open>return promiseAllRecord(object, functionToCall);\<close>
\<close>

definition bulkAesEncrypt ::
  "(jsval \<Rightarrow> fate) \<Rightarrow> (jsstring \<times> jsval) list \<Rightarrow> jsval \<Rightarrow> rng
     \<Rightarrow> (engine \<times> task list) \<times> rng" where
  "bulkAesEncrypt thenable object key g =
     (let functionToCall = (\<lambda>g value. promisifiedAesEncryptData thenable (value, key) g)
      in promiseAllRecord thenable object (Some functionToCall) g)"

definition bulkAesDecrypt ::
  "from_object \<Rightarrow> (jsval \<Rightarrow> fate) \<Rightarrow> (jsstring \<times> jsval) list \<Rightarrow> jsval \<Rightarrow> 's
     \<Rightarrow> (engine \<times> task list) \<times> 's" where
  "bulkAesDecrypt from_object thenable object key s =
     (let functionToCall =
            (\<lambda>s value. promisifiedAesDecryptData from_object thenable (value, key) s)
      in promiseAllRecord thenable object (Some functionToCall) s)"

text \<open>The promise of a bulk call after the handlers of a schedule have run.\<close>

definition bulkAesEncrypt_after ::
  "inherited \<Rightarrow> (jsval \<Rightarrow> fate) \<Rightarrow> (jsstring \<times> jsval) list \<Rightarrow> jsval \<Rightarrow> rng
     \<Rightarrow> nat list \<Rightarrow> engine" where
  "bulkAesEncrypt_after inherited thenable object key g sched =
     (case bulkAesEncrypt thenable object key g of
        ((st, ts), g') \<Rightarrow> run inherited (length object) ts sched st)"

definition bulkAesDecrypt_after ::
  "inherited \<Rightarrow> from_object \<Rightarrow> (jsval \<Rightarrow> fate) \<Rightarrow> (jsstring \<times> jsval) list \<Rightarrow> jsval \<Rightarrow> 's
     \<Rightarrow> nat list \<Rightarrow> engine" where
  "bulkAesDecrypt_after inherited from_object thenable object key s sched =
     (case bulkAesDecrypt from_object thenable object key s of
        ((st, ts), s') \<Rightarrow> run inherited (length object) ts sched st)"

section \<open>Properties of the engine\<close>

lemma outcome_reject: "outcome (reject err st) = (if outcome st = Pending then Rejected err else outcome st)"
  by (simp add: reject_def)

lemma results_resolve [simp]: "results (resolve st) = results st"
  by (simp add: resolve_def)

lemma results_reject [simp]: "results (reject err st) = results st"
  by (simp add: reject_def)

lemma completed_resolve [simp]: "completed (resolve st) = completed st"
  by (simp add: resolve_def)

lemma completed_reject [simp]: "completed (reject err st) = completed st"
  by (simp add: reject_def)

lemma resolve_settled: "outcome st \<noteq> Pending \<Longrightarrow> resolve st = st"
  by (simp add: resolve_def)

lemma reject_settled: "outcome st \<noteq> Pending \<Longrightarrow> reject err st = st"
  by (simp add: reject_def)

lemma on_settled_settled:
  "outcome st \<noteq> Pending \<Longrightarrow> outcome (on_settled inherited n t st) = outcome st"
  by (cases t; cases "snd t")
     (auto simp: on_settled_def resolve_def reject_def Let_def split: sum.splits)

lemma run_settled:
  "outcome st \<noteq> Pending \<Longrightarrow> outcome (run inherited n ts sched st) = outcome st"
  by (induction sched arbitrary: st) (auto simp: on_settled_settled)


lemma forEach_length:
  "forEach thenable f entries launched s = ((ts, None), s') \<Longrightarrow>
     length ts = length launched + length entries"
  by (induction entries arbitrary: launched s)
     (auto split: prod.splits sum.splits)

lemma forEach_throw:
  "forEach thenable f before launched s = ((tsb, None), s1) \<Longrightarrow>
   launch_entry thenable f s1 entry = (Inl err, s2) \<Longrightarrow>
   forEach thenable f (before @ entry # after) launched s = ((tsb, Some err), s2)"
  by (induction before arbitrary: launched s)
     (auto split: prod.splits sum.splits)

subsection \<open>Assignments while the prototype is \<^verbatim>\<open>Object.prototype\<close>\<close>



lemma set_property_ordinary:
  "proto obj = ObjectPrototype \<Longrightarrow> key \<noteq> ascii ''__proto__'' \<Longrightarrow>
   set_property inherited obj key v = Inr (obj\<lparr>props := assign (props obj) key v\<rparr>)"
  by (simp add: set_property_def)

lemma on_settled_ordinary:
  assumes "proto (results st) = ObjectPrototype" "fst t \<noteq> ascii ''__proto__''"
  shows "proto (results (on_settled inherited n t st)) = ObjectPrototype"
    and "completed (on_settled inherited n t st) =
           completed st + (if is_fulfils (snd t) then 1 else 0)"
    and "props (results (on_settled inherited n t st)) =
           (case snd t of Fulfils v \<Rightarrow> assign (props (results st)) (fst t) v
                        | _ \<Rightarrow> props (results st))"
  using assms
  by (cases t; cases "snd t";
      simp add: on_settled_def set_property_ordinary Let_def is_fulfils_def)+


lemma run_ordinary:
  assumes "\<forall>i\<in>set sched. i < length ts \<longrightarrow> fst (ts ! i) \<noteq> ascii ''__proto__''"
    "proto (results st) = ObjectPrototype"
  shows "proto (results (run inherited n ts sched st)) = ObjectPrototype \<and>
         completed (run inherited n ts sched st) =
           completed st + length (filter (\<lambda>i. i < length ts \<and> is_fulfils (snd (ts ! i))) sched)"
  using assms
proof (induction sched arbitrary: st)
  case Nil
  then show ?case by simp
next
  case (Cons i sched)
  show ?case
  proof (cases "i < length ts")
    case True
    with Cons.prems have k: "fst (ts ! i) \<noteq> ascii ''__proto__''" by simp
    let ?st = "on_settled inherited n (ts ! i) st"
    from on_settled_ordinary[OF Cons.prems(2) k]
    have a: "proto (results ?st) = ObjectPrototype"
      "completed ?st = completed st + (if is_fulfils (snd (ts ! i)) then 1 else 0)"
      by simp_all
    from Cons.prems(1) have r: "\<forall>i\<in>set sched. i < length ts \<longrightarrow> fst (ts ! i) \<noteq> ascii ''__proto__''"
      by simp
    from Cons.IH[OF r a(1)] a(2) True show ?thesis by simp
  next
    case False
    from Cons.prems(1) have r: "\<forall>i\<in>set sched. i < length ts \<longrightarrow> fst (ts ! i) \<noteq> ascii ''__proto__''"
      by simp
    from Cons.IH[OF r Cons.prems(2)] False show ?thesis by simp
  qed
qed


subsection \<open>The launch loop\<close>









lemma promiseAllRecord_empty:
  "promiseAllRecord thenable [] f s =
     ((\<lparr>results = empty_object, completed = 0, outcome = Pending\<rparr>, []), s)"
  by (simp add: promiseAllRecord_def)


text \<open>
  C2. The claim is that \<^verbatim>\<open>promiseAllRecord({}, f)\<close> resolves at once to \<^verbatim>\<open>{}\<close>. In the
  code \<^verbatim>\<open>resolve\<close> is only called from the \<^verbatim>\<open>then\<close> callback of an entry. With no
  entries no task is launched and the promise is pending after the call and after every
  schedule: it never settles.
\<close>
theorem promiseAllRecord_empty_stays_pending:
  "snd (fst (promiseAllRecord thenable [] f s)) = [] \<and>
   outcome (fst (fst (promiseAllRecord thenable [] f s))) = Pending \<and>
   outcome (promiseAllRecord_after inherited thenable [] f s sched) = Pending"
proof -
  have "run inherited 0 [] sched st = st" for st :: engine
    by (induction sched) auto
  then show ?thesis
    by (simp add: promiseAllRecord_after_def promiseAllRecord_empty)
qed

text \<open>
  C4. Key-set preservation fails for an own property named \<^verbatim>\<open>__proto__\<close> (as
  \<^verbatim>\<open>JSON.parse('{"__proto__":"x"}')\<close> creates): with a transform that fulfils with its
  argument the promise is fulfilled with a record that has no key at all.
\<close>
theorem promiseAllRecord_proto_key_lost:
  "promiseAllRecord_after inherited (\<lambda>_. Never) [(ascii ''__proto__'', JStr (ascii ''x''))]
      (Some (\<lambda>s v. (Return (JPromise (Fulfils v)), s))) () [0]
   = \<lparr>results = \<lparr>props = [], proto = ObjectPrototype\<rparr>, completed = 1, outcome = Fulfilled\<rparr>"
  by (simp add: promiseAllRecord_after_def promiseAllRecord_def launch_entry_def
        isPromise_def on_settled_def set_property_def resolve_def object_then_def
        empty_object_def)




lemma forEach_promises:
  "list_all (\<lambda>e. isPromise (snd e)) before \<Longrightarrow>
   forEach thenable f before launched s =
     ((launched @ map (\<lambda>e. (fst e, promise_resolve thenable (snd e))) before, None), s)"
  by (induction before arbitrary: launched)
     (auto simp: launch_entry_def split: prod.splits)

lemma split_first_non_promise:
  assumes "\<exists>e\<in>set object. \<not> isPromise (snd e)"
  shows "\<exists>e after. object = takeWhile (\<lambda>e. isPromise (snd e)) object @ e # after \<and>
           \<not> isPromise (snd e)"
proof -
  let ?P = "\<lambda>e. isPromise (snd e)"
  from assms have "dropWhile ?P object \<noteq> []" by (auto simp: dropWhile_eq_Nil_conv)
  then obtain e after where d: "dropWhile ?P object = e # after"
    by (cases "dropWhile ?P object") auto
  then have "\<not> ?P e" using hd_dropWhile[of ?P object] by auto
  moreover have "object = takeWhile ?P object @ e # after"
    using d takeWhile_dropWhile_id[of ?P object] by simp
  ultimately show ?thesis by blast
qed

text \<open>
  C7. The claim makes the call fail, synchronously, for every record with a value that is
  no asynchronous computation. The code decides by \<^verbatim>\<open>isPromise\<close>, which looks only at
  \<^verbatim>\<open>then\<close>: the plain object \<^verbatim>\<open>{then: 1}\<close> is no computation, yet without a transform
  nothing fails and the promise is fulfilled with the record. And where the code does
  fail, the call does not throw: the exception is thrown inside the executor of
  \<^verbatim>\<open>new Promise\<close>, so the call returns a promise, which is rejected.
\<close>
theorem promiseAllRecord_missing_transform_counterexample:
  "promiseAllRecord_after function_prototype (\<lambda>_. Never)
      [(ascii ''k'', JObject [(ascii ''then'', JNum 1)])] (None :: unit transform option) () [0]
     = \<lparr>results = \<lparr>props = [(ascii ''k'', JObject [(ascii ''then'', JNum 1)])],
                    proto = ObjectPrototype\<rparr>,
        completed = 1, outcome = Fulfilled\<rparr>
   \<and> promiseAllRecord (\<lambda>_. Never) [(ascii ''a'', JNum 1)] (None :: unit transform option) ()
     = ((\<lparr>results = empty_object, completed = 0,
          outcome = Rejected (JError ''Error'' ''Invalid input'')\<rparr>, []), ())"
  by (simp add: promiseAllRecord_after_def promiseAllRecord_def launch_entry_def
        isPromise_def on_settled_def set_property_def resolve_def reject_def
        object_then_def empty_object_def ascii_def)

text \<open>
  C7, amended. If some value of the record does not pass \<^verbatim>\<open>isPromise\<close> (it is \<^verbatim>\<open>null\<close>,
  \<^verbatim>\<open>undefined\<close>, or has no truthy \<^verbatim>\<open>then\<close>) and no transform is given, the call returns a
  promise that is already rejected with \<^verbatim>\<open>Error('Invalid input')\<close>: the failure is decided
  in the synchronous loop and delivered through the promise. The tasks launched are
  exactly those of the entries before the first such value, so nothing is launched for it.
  The promise stays rejected under every schedule. The launched tasks are not cancelled:
  their handlers run, and when none of them has the key \<^verbatim>\<open>__proto__\<close>, \<open>completed\<close>
  counts each fulfilment.
\<close>
theorem promiseAllRecord_invalid_input:
  assumes "\<exists>e\<in>set object. \<not> isPromise (snd e)"
  shows "promiseAllRecord thenable object None s =
           ((\<lparr>results = empty_object, completed = 0,
              outcome = Rejected (JError ''Error'' ''Invalid input'')\<rparr>,
             map (\<lambda>e. (fst e, promise_resolve thenable (snd e)))
               (takeWhile (\<lambda>e. isPromise (snd e)) object)), s)
       \<and> (\<forall>sched.
            outcome (promiseAllRecord_after inherited thenable object None s sched) =
              Rejected (JError ''Error'' ''Invalid input''))
       \<and> (\<forall>sched.
            ascii ''__proto__'' \<notin> fst ` set (takeWhile (\<lambda>e. isPromise (snd e)) object) \<longrightarrow>
            completed (promiseAllRecord_after inherited thenable object None s sched) =
              length (filter (\<lambda>i. i < length (takeWhile (\<lambda>e. isPromise (snd e)) object) \<and>
                 is_fulfils (promise_resolve thenable
                   (snd (takeWhile (\<lambda>e. isPromise (snd e)) object ! i)))) sched))"
proof -
  let ?P = "\<lambda>e. isPromise (snd e)"
  let ?before = "takeWhile ?P object"
  let ?ts = "map (\<lambda>e. (fst e, promise_resolve thenable (snd e))) ?before"
  let ?err = "JError ''Error'' ''Invalid input''"
  let ?st = "\<lparr>results = empty_object, completed = 0, outcome = Rejected ?err\<rparr>"
  from split_first_non_promise[OF assms] obtain e after
    where obj: "object = ?before @ e # after" and e: "\<not> isPromise (snd e)" by blast
  have "list_all ?P ?before"
    by (auto simp: list_all_iff dest: set_takeWhileD)
  from forEach_promises[OF this, of thenable None "[]" s]
  have b: "forEach thenable None ?before [] s = ((?ts, None), s)"
    by simp
  have l: "launch_entry thenable (None :: 'a transform option) s e = (Inl ?err, s)"
    using e by (cases e) (simp add: launch_entry_def)
  have "forEach thenable None (?before @ e # after) [] s = ((?ts, Some ?err), s)"
    by (rule forEach_throw[OF b l])
  then have "forEach thenable None object [] s = ((?ts, Some ?err), s)"
    using obj by simp
  then have 1: "promiseAllRecord thenable object None s = ((?st, ?ts), s)"
    by (simp add: promiseAllRecord_def reject_def)
  have 2: "outcome (run inherited (length object) ?ts sched ?st) = Rejected ?err" for sched
    by (simp add: run_settled)
  have 3: "completed (run inherited (length object) ?ts sched ?st) =
      length (filter (\<lambda>i. i < length ?before \<and>
                 is_fulfils (promise_resolve thenable (snd (?before ! i)))) sched)"
    if np: "ascii ''__proto__'' \<notin> fst ` set ?before" for sched
  proof -
    have k: "\<forall>i\<in>set sched. i < length ?ts \<longrightarrow> fst (?ts ! i) \<noteq> ascii ''__proto__''"
    proof (intro ballI impI)
      fix i assume "i \<in> set sched" "i < length ?ts"
      then have "i < length ?before" by simp
      then have "?before ! i \<in> set ?before" by (rule nth_mem)
      then have "fst (?before ! i) \<in> fst ` set ?before" by (rule imageI)
      with np have "fst (?before ! i) \<noteq> ascii ''__proto__''" by metis
      with \<open>i < length ?before\<close> show "fst (?ts ! i) \<noteq> ascii ''__proto__''" by simp
    qed
    have "(\<lambda>i. i < length ?ts \<and> is_fulfils (snd (?ts ! i))) =
          (\<lambda>i. i < length ?before \<and> is_fulfils (promise_resolve thenable (snd (?before ! i))))"
      by (auto simp: fun_eq_iff)
    with run_ordinary[OF k, of ?st inherited "length object"]
    show ?thesis by (simp add: empty_object_def)
  qed
  show ?thesis
    using 1 2 3 by (simp add: promiseAllRecord_after_def)
qed

theorem promiseAllRecord_invalid_input_witness:
  "outcome (promiseAllRecord_after function_prototype (\<lambda>_. Never)
      [(ascii ''a'', JPromise (Fulfils (JNum 1))), (ascii ''b'', JNum 2),
       (ascii ''c'', JPromise Never)] (None :: unit transform option) () [0])
     = Rejected (JError ''Error'' ''Invalid input'')
   \<and> completed (promiseAllRecord_after function_prototype (\<lambda>_. Never)
      [(ascii ''a'', JPromise (Fulfils (JNum 1))), (ascii ''b'', JNum 2),
       (ascii ''c'', JPromise Never)] (None :: unit transform option) () [0]) = 1
   \<and> snd (fst (promiseAllRecord (\<lambda>_. Never)
      [(ascii ''a'', JPromise (Fulfils (JNum 1))), (ascii ''b'', JNum 2),
       (ascii ''c'', JPromise Never)] (None :: unit transform option) ()))
     = [(ascii ''a'', Fulfils (JNum 1))]"
proof -
  let ?obj = "[(ascii ''a'', JPromise (Fulfils (JNum 1))), (ascii ''b'', JNum 2),
       (ascii ''c'', JPromise Never)]"
  have h: "\<exists>e\<in>set ?obj. \<not> isPromise (snd e)"
    by (simp add: isPromise_def)
  note t = promiseAllRecord_invalid_input[OF h, of "\<lambda>_. Never" "()" function_prototype]
  have np: "ascii ''__proto__'' \<notin> fst ` set (takeWhile (\<lambda>e. isPromise (snd e)) ?obj)"
    by (simp add: isPromise_def ascii_def)
  from t[THEN conjunct1] t[THEN conjunct2, THEN conjunct1, rule_format, of "[0]"]
    t[THEN conjunct2, THEN conjunct2, rule_format, OF np, of "[0]"]
  show ?thesis
    by (simp add: isPromise_def is_fulfils_def)
qed







section \<open>Properties of the conversions\<close>

lemma byte_lt: "unat (b :: byte) < 256"
  using unsigned_less[of b, where ?'a = nat] by simp

lemma unat_of_nat16: "m < 65536 \<Longrightarrow> unat (of_nat m :: 16 word) = m"
  by (simp add: unat_of_nat)

lemma unat_of_nat8: "m < 256 \<Longrightarrow> unat (of_nat m :: byte) = m"
  by (simp add: unat_of_nat)

lemma unat_base64url_char:
  "n < 64 \<Longrightarrow> unat (base64url_char n) =
     (if n < 26 then 65 + n else if n < 52 then 71 + n else if n < 62 then n - 4
      else if n = 62 then 45 else 95)"
  unfolding base64url_char_def
  by (auto simp del: of_nat_add of_nat_diff simp add: unat_of_nat16)

lemma unbase64_base64url_char: "n < 64 \<Longrightarrow> unbase64 (base64url_char n) = Some n"
  by (auto simp: unbase64_def unat_base64url_char Let_def)

lemma sextets_base64url_char:
  "n < 64 \<Longrightarrow> sextets (base64url_char n # cs) = n # sextets cs"
  by (simp add: unbase64_base64url_char)

lemma of_nat_unat_byte: "of_nat (unat (a :: byte)) = a"
  by simp

lemma byte_split_4:
  "(of_nat (unat a div 4 * 4 + (unat a mod 4 * 16 + unat b div 16) div 16) :: byte) = a"
  for a b :: byte
proof -
  have "(unat a mod 4 * 16 + unat b div 16) div 16 = unat a mod 4"
    using byte_lt[of b] by simp
  then have "unat a div 4 * 4 + (unat a mod 4 * 16 + unat b div 16) div 16 = unat a"
    by simp
  then show ?thesis by (simp only: of_nat_unat_byte)
qed

lemma byte_split_16:
  "(of_nat ((unat a mod 4 * 16 + unat b div 16) mod 16 * 16
           + (unat b mod 16 * 4 + unat c div 64) div 4) :: byte) = b"
  for a b c :: byte
proof -
  have 1: "(unat a mod 4 * 16 + unat b div 16) mod 16 = unat b div 16"
    using byte_lt[of b] by simp
  have 2: "(unat b mod 16 * 4 + unat c div 64) div 4 = unat b mod 16"
    using byte_lt[of c] by simp
  have "(unat a mod 4 * 16 + unat b div 16) mod 16 * 16
           + (unat b mod 16 * 4 + unat c div 64) div 4 = unat b"
    unfolding 1 2 by simp
  then show ?thesis by (simp only: of_nat_unat_byte)
qed

lemma byte_split_64:
  "(of_nat ((unat b mod 16 * 4 + unat c div 64) mod 4 * 64 + unat c mod 64) :: byte) = c"
  for b c :: byte
proof -
  have 1: "(unat b mod 16 * 4 + unat c div 64) mod 4 = unat c div 64"
    using byte_lt[of c] by simp
  have "(unat b mod 16 * 4 + unat c div 64) mod 4 * 64 + unat c mod 64 = unat c"
    unfolding 1 by simp
  then show ?thesis by (simp only: of_nat_unat_byte)
qed

lemma byte_split_16':
  "(of_nat ((unat a mod 4 * 16 + unat b div 16) mod 16 * 16 + unat b mod 16 * 4 div 4) :: byte) = b"
  for a b :: byte
proof -
  have 1: "(unat a mod 4 * 16 + unat b div 16) mod 16 = unat b div 16"
    using byte_lt[of b] by simp
  have "(unat a mod 4 * 16 + unat b div 16) mod 16 * 16 + unat b mod 16 * 4 div 4 = unat b"
    unfolding 1 by simp
  then show ?thesis by (simp only: of_nat_unat_byte)
qed

lemma byte_split_4': "(of_nat (unat a div 4 * 4 + unat a mod 4 * 16 div 16) :: byte) = a"
  for a :: byte
proof -
  have "unat a div 4 * 4 + unat a mod 4 * 16 div 16 = unat a" by simp
  then show ?thesis by (simp only: of_nat_unat_byte)
qed

lemma sextet_bounds:
  "unat a div 4 < 64"
  "unat a mod 4 * 16 + unat b div 16 < 64"
  "unat b mod 16 * 4 + unat c div 64 < 64"
  "unat c mod 64 < 64"
  "unat a mod 4 * 16 < 64"
  "unat b mod 16 * 4 < 64"
  for a b c :: byte
  using byte_lt[of a] byte_lt[of b] byte_lt[of c] by simp_all

lemma base64_roundtrip: "base64_decode (base64url_encode bs) = bs"
  unfolding base64_decode_def
proof (induction bs rule: base64url_encode.induct)
  case 1
  then show ?case by simp
next
  case (2 a)
  show ?case
    by (simp only: base64url_encode.simps sextets_base64url_char sextet_bounds sextets.simps(1)
          bytes_of_sextets.simps byte_split_4')
next
  case (3 a b)
  show ?case
    by (simp only: base64url_encode.simps sextets_base64url_char sextet_bounds sextets.simps(1)
          bytes_of_sextets.simps byte_split_4 byte_split_16')
next
  case (4 a b c bs)
  then show ?case
    by (simp only: base64url_encode.simps sextets_base64url_char sextet_bounds append_Cons
          append_Nil bytes_of_sextets.simps byte_split_4 byte_split_16 byte_split_64)
qed

lemma ucast_byte: "(ucast (b :: byte) :: 16 word) = of_nat (unat b)"
  by (simp add: of_nat_unat)

lemma dec1: "unat b < 0x80 \<Longrightarrow> utf8_decode (b # rest) = of_nat (unat b) # utf8_decode rest"
  by (subst utf8_decode.simps(2)) (simp only: if_True ucast_byte)

lemma dec2:
  assumes "0xC2 \<le> unat b" "unat b \<le> 0xDF" "in_range b1 0x80 0xBF"
  shows "utf8_decode (b # b1 # rest) =
     utf16_of_code_point ((unat b - 0xC0) * 0x40 + (unat b1 - 0x80)) @ utf8_decode rest"
proof -
  have n: "\<not> unat b < 0x80" using assms by simp
  show ?thesis
    by (subst utf8_decode.simps(2)) (simp only: n assms if_True if_False list.case simp_thms)
qed

lemma dec3:
  assumes "0xE0 \<le> unat b" "unat b \<le> 0xEF"
    "in_range b1 (if unat b = 0xE0 then 0xA0 else 0x80) (if unat b = 0xED then 0x9F else 0xBF)"
    "in_range b2 0x80 0xBF"
  shows "utf8_decode (b # b1 # b2 # rest) =
     utf16_of_code_point ((unat b - 0xE0) * 0x1000 + (unat b1 - 0x80) * 0x40 + (unat b2 - 0x80))
       @ utf8_decode rest"
proof -
  have n: "\<not> unat b < 0x80" "\<not> (0xC2 \<le> unat b \<and> unat b \<le> 0xDF)" using assms by simp_all
  show ?thesis
    by (subst utf8_decode.simps(2)) (simp only: n assms if_True if_False list.case simp_thms)
qed

lemma dec4:
  assumes "0xF0 \<le> unat b" "unat b \<le> 0xF4"
    "in_range b1 (if unat b = 0xF0 then 0x90 else 0x80) (if unat b = 0xF4 then 0x8F else 0xBF)"
    "in_range b2 0x80 0xBF" "in_range b3 0x80 0xBF"
  shows "utf8_decode (b # b1 # b2 # b3 # rest) =
     utf16_of_code_point ((unat b - 0xF0) * 0x40000 + (unat b1 - 0x80) * 0x1000
        + (unat b2 - 0x80) * 0x40 + (unat b3 - 0x80)) @ utf8_decode rest"
proof -
  have n: "\<not> unat b < 0x80" "\<not> (0xC2 \<le> unat b \<and> unat b \<le> 0xDF)"
    "\<not> (0xE0 \<le> unat b \<and> unat b \<le> 0xEF)" using assms by simp_all
  show ?thesis
    by (subst utf8_decode.simps(2)) (simp only: n assms if_True if_False list.case simp_thms)
qed

lemma cont_byte: "m < 0x40 \<Longrightarrow> in_range (of_nat (0x80 + m)) 0x80 0xBF"
  "m < 0x40 \<Longrightarrow> unat (of_nat (0x80 + m) :: byte) - 0x80 = m"
  "m < 0x40 \<Longrightarrow> unat (of_nat (0x80 + m) :: byte) = 0x80 + m"
  by (simp_all add: in_range_def unat_of_nat8 del: of_nat_add)

lemma utf8_decode_2:
  assumes "0x80 \<le> cp" "cp < 0x800"
  shows "utf8_decode (of_nat (0xC0 + cp div 0x40) # of_nat (0x80 + cp mod 0x40) # rest)
           = utf16_of_code_point cp @ utf8_decode rest"
proof -
  define q where "q = cp div 0x40"
  define r where "r = cp mod 0x40"
  have cp: "cp = q * 0x40 + r" and r: "r < 0x40" by (simp_all add: q_def r_def)
  have q: "2 \<le> q" "q < 32" using assms by (simp_all add: q_def)
  have b0: "unat (of_nat (0xC0 + q) :: byte) = 0xC0 + q"
    using q by (intro unat_of_nat8) simp
  have "utf8_decode (of_nat (0xC0 + q) # of_nat (0x80 + r) # rest) =
     utf16_of_code_point ((unat (of_nat (0xC0 + q) :: byte) - 0xC0) * 0x40
        + (unat (of_nat (0x80 + r) :: byte) - 0x80)) @ utf8_decode rest"
    using q r by (intro dec2) (simp_all add: b0 cont_byte del: of_nat_add)
  then show ?thesis
    unfolding q_def[symmetric] r_def[symmetric] using r by (simp add: b0 cont_byte cp del: of_nat_add)
qed

lemma utf8_decode_3:
  assumes "0x800 \<le> cp" "cp < 0x10000" "\<not> (0xD800 \<le> cp \<and> cp \<le> 0xDFFF)"
  shows "utf8_decode (of_nat (0xE0 + cp div 0x1000) # of_nat (0x80 + cp div 0x40 mod 0x40)
              # of_nat (0x80 + cp mod 0x40) # rest)
           = utf16_of_code_point cp @ utf8_decode rest"
proof -
  define p where "p = cp div 0x1000"
  define q where "q = cp div 0x40 mod 0x40"
  define r where "r = cp mod 0x40"
  have "cp div 0x40 = p * 0x40 + q"
    unfolding p_def q_def by (simp add: div_mult2_eq[of cp "0x40" "0x40", simplified])
  then have cp: "cp = (p * 0x40 + q) * 0x40 + r"
    unfolding r_def by (metis div_mult_mod_eq)
  have r: "r < 0x40" and q: "q < 0x40" by (simp_all add: q_def r_def)
  have p: "p < 16" using assms by (simp add: p_def)
  have lo: "p = 0 \<Longrightarrow> 32 \<le> q" using assms(1) cp r by simp
  have hi: "p = 13 \<Longrightarrow> q < 32" using assms(3) cp r q by simp
  have e: "p * 0x1000 + q * 0x40 + r = cp" by (simp add: cp)
  have b0: "unat (of_nat (0xE0 + p) :: byte) = 0xE0 + p"
    using p by (intro unat_of_nat8) simp
  have b1: "unat (of_nat (0x80 + q) :: byte) = 0x80 + q"
    using q by (intro unat_of_nat8) simp
  have "utf8_decode (of_nat (0xE0 + p) # of_nat (0x80 + q) # of_nat (0x80 + r) # rest) =
     utf16_of_code_point ((unat (of_nat (0xE0 + p) :: byte) - 0xE0) * 0x1000
        + (unat (of_nat (0x80 + q) :: byte) - 0x80) * 0x40
        + (unat (of_nat (0x80 + r) :: byte) - 0x80)) @ utf8_decode rest"
    using p q r lo hi
    by (intro dec3) (auto simp add: b0 b1 in_range_def cont_byte simp del: of_nat_add)
  then show ?thesis
    unfolding p_def[symmetric] q_def[symmetric] r_def[symmetric]
    using r q e by (simp add: b0 cont_byte del: of_nat_add)
qed

lemma utf8_decode_4:
  assumes "0x10000 \<le> cp" "cp < 0x110000"
  shows "utf8_decode (of_nat (0xF0 + cp div 0x40000) # of_nat (0x80 + cp div 0x1000 mod 0x40)
              # of_nat (0x80 + cp div 0x40 mod 0x40) # of_nat (0x80 + cp mod 0x40) # rest)
           = utf16_of_code_point cp @ utf8_decode rest"
proof -
  define o' where "o' = cp div 0x40000"
  define p where "p = cp div 0x1000 mod 0x40"
  define q where "q = cp div 0x40 mod 0x40"
  define r where "r = cp mod 0x40"
  have 1: "cp div 0x40 = cp div 0x1000 * 0x40 + q"
    unfolding q_def by (simp add: div_mult2_eq[of cp "0x40" "0x40", simplified])
  have 2: "cp div 0x1000 = o' * 0x40 + p"
    unfolding o'_def p_def by (simp add: div_mult2_eq[of cp "0x1000" "0x40", simplified])
  have cp: "cp = ((o' * 0x40 + p) * 0x40 + q) * 0x40 + r"
    unfolding r_def 2[symmetric] 1[symmetric] by (metis div_mult_mod_eq)
  have r: "r < 0x40" and q: "q < 0x40" and p: "p < 0x40" by (simp_all add: q_def r_def p_def)
  have o: "o' \<le> 4" using assms by (simp add: o'_def)
  have lo: "o' = 0 \<Longrightarrow> 16 \<le> p" using assms(1) cp r q by simp
  have hi: "o' = 4 \<Longrightarrow> p < 16" using assms(2) cp r q by simp
  have e: "o' * 0x40000 + p * 0x1000 + q * 0x40 + r = cp" by (simp add: cp)
  have b0: "unat (of_nat (0xF0 + o') :: byte) = 0xF0 + o'"
    using o by (intro unat_of_nat8) simp
  have b1: "unat (of_nat (0x80 + p) :: byte) = 0x80 + p"
    using p by (intro unat_of_nat8) simp
  have "utf8_decode (of_nat (0xF0 + o') # of_nat (0x80 + p) # of_nat (0x80 + q)
           # of_nat (0x80 + r) # rest) =
     utf16_of_code_point ((unat (of_nat (0xF0 + o') :: byte) - 0xF0) * 0x40000
        + (unat (of_nat (0x80 + p) :: byte) - 0x80) * 0x1000
        + (unat (of_nat (0x80 + q) :: byte) - 0x80) * 0x40
        + (unat (of_nat (0x80 + r) :: byte) - 0x80)) @ utf8_decode rest"
    using o p q r lo hi
    by (intro dec4) (auto simp add: b0 b1 in_range_def cont_byte simp del: of_nat_add)
  then show ?thesis
    unfolding o'_def[symmetric] p_def[symmetric] q_def[symmetric] r_def[symmetric]
    using r q p e by (simp add: b0 cont_byte del: of_nat_add)
qed


lemma utf8_decode_code_point:
  assumes "cp < 0x110000" "\<not> (0xD800 \<le> cp \<and> cp \<le> 0xDFFF)"
  shows "utf8_decode (utf8_of_code_point cp @ rest) = utf16_of_code_point cp @ utf8_decode rest"
proof -
  consider "cp < 0x80" | "0x80 \<le> cp" "cp < 0x800" | "0x800 \<le> cp" "cp < 0x10000"
    | "0x10000 \<le> cp" by linarith
  then show ?thesis
  proof cases
    case 1
    then have "unat (of_nat cp :: byte) = cp" by (intro unat_of_nat8) simp
    with 1 dec1[of "of_nat cp" rest] show ?thesis
      by (simp add: utf8_of_code_point_def utf16_of_code_point_def)
  next
    case 2
    then show ?thesis
      using utf8_decode_2[of cp rest]
      by (simp add: utf8_of_code_point_def del: of_nat_add)
  next
    case 3
    then show ?thesis
      using utf8_decode_3[of cp rest] assms
      by (simp add: utf8_of_code_point_def del: of_nat_add)
  next
    case 4
    then show ?thesis
      using utf8_decode_4[of cp rest] assms
      by (simp add: utf8_of_code_point_def del: of_nat_add)
  qed
qed

lemma surrogate_unat:
  "is_high_surrogate u \<longleftrightarrow> 0xD800 \<le> unat u \<and> unat u \<le> 0xDBFF"
  "is_low_surrogate u \<longleftrightarrow> 0xDC00 \<le> unat u \<and> unat u \<le> 0xDFFF"
  by (simp_all add: is_high_surrogate_def is_low_surrogate_def word_le_nat_alt)

lemma unit_lt: "unat (u :: 16 word) < 0x10000"
  using unsigned_less[of u, where ?'a = nat] by simp

lemma utf16_unit:
  "utf16_of_code_point (unat (u :: 16 word)) = [u]"
  using unit_lt[of u] by (simp add: utf16_of_code_point_def)

lemma utf16_pair:
  assumes "is_high_surrogate u" "is_low_surrogate l"
  shows "utf16_of_code_point (0x10000 + (unat u - 0xD800) * 0x400 + (unat l - 0xDC00)) = [u, l]"
proof -
  define h where "h = unat u - 0xD800"
  define k where "k = unat l - 0xDC00"
  have h: "unat u = 0xD800 + h" "h < 0x400" and k: "unat l = 0xDC00 + k" "k < 0x400"
    using assms by (auto simp: surrogate_unat h_def k_def)
  have 1: "(h * 0x400 + k) div 0x400 = h" using k by simp
  have 2: "(h * 0x400 + k) mod 0x400 = k" using k by simp
  have 3: "0x10000 + h * 0x400 + k - 0x10000 = h * 0x400 + k" by simp
  have n: "\<not> 0x10000 + h * 0x400 + k < 0x10000" by simp
  have "utf16_of_code_point (0x10000 + h * 0x400 + k)
          = [of_nat (0xD800 + h), of_nat (0xDC00 + k)]"
    unfolding utf16_of_code_point_def by (simp only: n if_False 3 1 2)
  then show ?thesis
    unfolding h_def[symmetric] k_def[symmetric] h(1)[symmetric] k(1)[symmetric] by simp
qed

lemma pair_valid:
  assumes "is_high_surrogate u" "is_low_surrogate l"
  shows "0x10000 + (unat u - 0xD800) * 0x400 + (unat l - 0xDC00) < 0x110000"
    "\<not> (0xD800 \<le> 0x10000 + (unat u - 0xD800) * 0x400 + (unat l - 0xDC00) \<and>
        0x10000 + (unat u - 0xD800) * 0x400 + (unat l - 0xDC00) \<le> 0xDFFF)"
  using assms by (auto simp: surrogate_unat)

lemma utf8_roundtrip: "well_formed s \<Longrightarrow> utf8_decode (utf8_encode s) = s"
proof (induction s rule: utf8_encode.induct)
  case 1
  then show ?case by simp
next
  case (2 u)
  then have v: "unat u < 0x110000" "\<not> (0xD800 \<le> unat u \<and> unat u \<le> 0xDFFF)"
    using unit_lt[of u] by (auto simp: surrogate_unat)
  from 2 utf8_decode_code_point[OF v, of "[]"] show ?case
    by (simp add: utf16_unit)
next
  case (3 u l us)
  show ?case
  proof (cases "is_high_surrogate u")
    case True
    with 3 have l: "is_low_surrogate l" and w: "well_formed us" by simp_all
    from 3 True l w have ih: "utf8_decode (utf8_encode us) = us" by simp
    show ?thesis
      using True l ih
        utf8_decode_code_point[OF pair_valid[OF True l], of "utf8_encode us"]
      by (simp add: utf16_pair)
  next
    case False
    with 3 have nl: "\<not> is_low_surrogate u" and w: "well_formed (l # us)" by simp_all
    from 3 False nl w have ih: "utf8_decode (utf8_encode (l # us)) = l # us" by simp
    have v: "unat u < 0x110000" "\<not> (0xD800 \<le> unat u \<and> unat u \<le> 0xDFFF)"
      using unit_lt[of u] False nl by (auto simp: surrogate_unat)
    show ?thesis
      using False nl ih utf8_decode_code_point[OF v, of "utf8_encode (l # us)"]
      by (simp add: utf16_unit)
  qed
qed

section \<open>Properties of the cipher mode and of the codec\<close>

lemma length_bytes_of_block [simp]: "length (bytes_of_block w) = 16"
  by (simp add: bytes_of_block_def)

lemma xor_zip_cancel:
  "length xs \<le> length ks \<Longrightarrow> map2 (XOR) (map2 (XOR) xs ks) ks = (xs :: byte list)"
proof (induction xs arbitrary: ks)
  case Nil
  then show ?case by simp
next
  case (Cons x xs)
  then obtain k ks' where "ks = k # ks'" by (cases ks) auto
  with Cons show ?case by (simp add: xor.assoc)
qed

lemma gctr_unfold:
  "data \<noteq> [] \<Longrightarrow>
   gctr key cb data =
     map2 (XOR) (take 16 data) (bytes_of_block (aes256 key cb))
       @ gctr key (inc32 cb) (drop 16 data)"
  by (cases data) simp_all

lemma length_gctr [simp]: "length (gctr key cb data) = length data"
  by (induction key cb data rule: gctr.induct) auto

lemma gctr_involution: "gctr key cb (gctr key cb data) = data"
proof (induction key cb data rule: gctr.induct)
  case (1 key cb)
  then show ?case by simp
next
  case (2 key cb b bs)
  let ?data = "b # bs"
  let ?K = "bytes_of_block (aes256 key cb)"
  let ?X = "map2 (XOR) (take 16 ?data) ?K"
  let ?Y = "gctr key (inc32 cb) (drop 15 bs)"
  have g: "gctr key cb ?data = ?X @ ?Y" by simp
  have lx: "length ?X = min 16 (length ?data)" by simp
  have ne: "?X @ ?Y \<noteq> []"
  proof
    assume "?X @ ?Y = []"
    then have "?X = []" by (simp only: append_is_Nil_conv)
    then have "length ?X = 0" by (simp only: list.size)
    with lx show False by simp
  qed
  have t: "take 16 (?X @ ?Y) = ?X"
    by (cases "length bs < 15") simp_all
  have d: "drop 16 (?X @ ?Y) = ?Y"
    by (cases "length bs < 15") simp_all
  have "gctr key cb (?X @ ?Y) = map2 (XOR) ?X ?K @ gctr key (inc32 cb) ?Y"
    using gctr_unfold[OF ne, of key cb] unfolding t d .
  also have "map2 (XOR) ?X ?K = take 16 ?data"
    by (rule xor_zip_cancel) simp
  also have "gctr key (inc32 cb) ?Y = drop 15 bs" by (rule 2)
  also have "take 16 ?data @ drop 15 bs = ?data" 
    using append_take_drop_id[of 16 ?data] by simp
  finally show ?case unfolding g .
qed

lemma gcm_crypt_involution: "gcm_crypt key iv (gcm_crypt key iv data) = data"
  by (simp add: gcm_crypt_def gctr_involution)

lemma length_gcm_crypt [simp]: "length (gcm_crypt key iv data) = length data"
  by (simp add: gcm_crypt_def)

lemma length_gcm_tag [simp]: "length (gcm_tag key iv c) = 16"
  by (simp add: gcm_tag_def)

lemma subarray_nonce:
  "length iv = 12 \<Longrightarrow> subarray (iv @ rest) 0 12 = iv"
  by (simp add: subarray_def clamp_index_def)

lemma subarray_tag:
  "length tag = 16 \<Longrightarrow> subarray (front @ tag) (- 16) (int (length (front @ tag))) = tag"
  by (simp add: subarray_def clamp_index_def)

lemma subarray_ciphertext:
  "length iv = 12 \<Longrightarrow> length tag = 16 \<Longrightarrow> subarray (iv @ c @ tag) 12 (- 16) = c"
  by (simp add: subarray_def clamp_index_def)

lemma base64url_encode_Nil [simp]: "base64url_encode bs = [] \<longleftrightarrow> bs = []"
  by (induction bs rule: base64url_encode.induct) auto

lemma utf8_encode_Nil: "utf8_encode s = [] \<Longrightarrow> s = []"
  by (induction s rule: utf8_encode.induct)
     (auto simp: utf8_of_code_point_def split: if_splits)

lemma length_randomBytes [simp]: "length (fst (randomBytes n g)) = n"
  by (simp add: randomBytes_def)

text \<open>What the encoder returns for a string and a key of 32 bytes.\<close>

lemma aesEncryptData_string:
  assumes "s \<noteq> []" "length (utf8_encode k) = 32"
  shows "aesEncryptData g (JStr s) (JStr k) =
     (Return (JStr (base64url_encode
        (fst (randomBytes 12 g)
         @ gcm_crypt (utf8_encode k) (fst (randomBytes 12 g)) (utf8_encode s)
         @ gcm_tag (utf8_encode k) (fst (randomBytes 12 g))
             (gcm_crypt (utf8_encode k) (fst (randomBytes 12 g)) (utf8_encode s))))),
      snd (randomBytes 12 g))"
proof -
  have k: "k \<noteq> []" using assms(2) by auto
  obtain iv g' where r: "randomBytes 12 g = (iv, g')" by (cases "randomBytes 12 g")
  have "length iv = 12" using length_randomBytes[of 12 g] unfolding r by simp
  then have iv: "iv \<noteq> []" by auto
  have c: "createCipheriv (JStr k) iv = Inr \<lparr>cipher_key = utf8_encode k, cipher_iv = iv\<rparr>"
    using iv assms(2) by (simp add: createCipheriv_def)
  show ?thesis
    using assms(1) k
    by (simp add: aesEncryptData_def r c cipher_update_def cipher_final_def getAuthTag_def)
qed

text \<open>What the decoder does with the encoding of nonce, ciphertext and tag.\<close>

lemma aesDecryptData_blob:
  assumes "length iv = 12" "length tag = 16" "length (utf8_encode k) = 32"
  shows "aesDecryptData from_object (JStr (base64url_encode (iv @ c @ tag))) (JStr k) =
     (if gcm_tag (utf8_encode k) iv c = tag
      then Return (JStr (utf8_decode (gcm_crypt (utf8_encode k) iv c)))
      else Throw (JError ''Error'' ''Unsupported state or unable to authenticate data''))"
proof -
  define buffer where "buffer = iv @ c @ tag"
  have k: "k \<noteq> []" using assms(3) by auto
  have iv: "iv \<noteq> []" using assms(1) by auto
  have t: "subarray buffer (- 16) (int (length buffer)) = tag"
    unfolding buffer_def using subarray_tag[OF assms(2), of "iv @ c"] by simp
  have n: "subarray buffer 0 12 = iv"
    unfolding buffer_def by (rule subarray_nonce[OF assms(1)])
  have ci: "subarray buffer 12 (- 16) = c"
    unfolding buffer_def by (rule subarray_ciphertext[OF assms(1,2)])
  have b: "Buffer_from from_object (JStr (base64url_encode buffer)) = Inr buffer"
    by (simp add: Buffer_from_def base64_roundtrip)
  have cr: "createDecipheriv (JStr k) iv = Inr \<lparr>cipher_key = utf8_encode k, cipher_iv = iv\<rparr>"
    using iv assms(3) by (simp add: createDecipheriv_def createCipheriv_def)
  have st: "setAuthTag tag = Inr tag"
    using assms(2) by (simp add: setAuthTag_def)
  have tr: "truthy (JStr (base64url_encode buffer))" "truthy (JStr k)"
    using iv k by (simp_all add: buffer_def)
  have "aesDecryptData from_object (JStr (base64url_encode buffer)) (JStr k) =
     (if gcm_tag (utf8_encode k) iv c = tag
      then Return (JStr (utf8_decode (gcm_crypt (utf8_encode k) iv c)))
      else Throw (JError ''Error'' ''Unsupported state or unable to authenticate data''))"
    using tr assms(2)
    by (simp add: aesDecryptData_def b n t ci cr st decipher_update_def decipher_final_def)
  then show ?thesis unfolding buffer_def .
qed

lemma example_key_valid: "length (utf8_encode example_key) = 32"
  by (simp add: example_key_def ascii_def is_high_surrogate_def is_low_surrogate_def
        utf8_of_code_point_def)

lemma aesRoundTrip_string:
  assumes "s \<noteq> []" "length (utf8_encode k) = 32"
  shows "aesRoundTrip from_object g (JStr s) (JStr k)
           = Return (JStr (utf8_decode (utf8_encode s)))"
proof -
  let ?iv = "fst (randomBytes 12 g)"
  let ?kb = "utf8_encode k"
  let ?c = "gcm_crypt ?kb ?iv (utf8_encode s)"
  have "aesDecryptData from_object (JStr (base64url_encode (?iv @ ?c @ gcm_tag ?kb ?iv ?c))) (JStr k)
          = Return (JStr (utf8_decode (gcm_crypt ?kb ?iv ?c)))"
    by (simp add: aesDecryptData_blob assms(2))
  then show ?thesis
    by (simp add: aesRoundTrip_def aesEncryptData_string[OF assms] gcm_crypt_involution)
qed

text \<open>
  C1, as stated, fails for the empty string, which the encoder turns into \<^verbatim>\<open>null\<close>, and
  for a string with an unpaired surrogate, which UTF-8 cannot carry: it comes back as
  U+FFFD.
\<close>

theorem aesRoundTrip_counterexample:
  "aesRoundTrip no_buffer (\<lambda>_. 0) (JStr []) (JStr example_key) = Return JNull
   \<and> aesRoundTrip no_buffer (\<lambda>_. 0) (JStr [0xD800]) (JStr example_key) = Return (JStr [0xFFFD])"
proof -
  have 1: "aesRoundTrip no_buffer (\<lambda>_. 0) (JStr []) (JStr example_key) = Return JNull"
    by (simp add: aesRoundTrip_def aesEncryptData_def aesDecryptData_def)
  have e: "utf8_encode [0xD800] = [0xEF, 0xBF, 0xBD]"
    by (simp add: is_high_surrogate_def)
  have d: "utf8_decode [0xEF, 0xBF, 0xBD] = [0xFFFD]"
    using dec3[of "0xEF" "0xBF" "0xBD" "[]"]
    by (simp add: in_range_def utf16_of_code_point_def)
  have "aesRoundTrip no_buffer (\<lambda>_. 0) (JStr [0xD800]) (JStr example_key)
          = Return (JStr (utf8_decode (utf8_encode [0xD800])))"
    by (rule aesRoundTrip_string) (simp_all add: example_key_valid)
  then show ?thesis using 1 by (simp only: e d simp_thms)
qed

text \<open>
  C1, amended. For every non-empty string without unpaired surrogates and every key whose
  UTF-8 encoding has 32 bytes, whatever nonce the random source delivers, decoding the
  encoding under the same key returns the string.
\<close>

theorem aesRoundTrip_law:
  "s \<noteq> [] \<Longrightarrow> well_formed s \<Longrightarrow> length (utf8_encode k) = 32 \<Longrightarrow>
   aesRoundTrip from_object g (JStr s) (JStr k) = Return (JStr s)"
  by (simp add: aesRoundTrip_string utf8_roundtrip)

theorem aesRoundTrip_law_witness:
  "aesRoundTrip no_buffer (\<lambda>i. of_nat i) (JStr [0x68, 0xE9, 0x20AC, 0xD83D, 0xDE00]) (JStr example_key)
     = Return (JStr [0x68, 0xE9, 0x20AC, 0xD83D, 0xDE00])"
  by (rule aesRoundTrip_law)
     (simp_all add: example_key_valid is_high_surrogate_def is_low_surrogate_def)

text \<open>
  C5. Absence. The encoder returns \<^verbatim>\<open>null\<close> exactly when the string or the key is falsy, and
  then it has not drawn a nonce; the decoder returns \<^verbatim>\<open>null\<close> exactly when the blob or the
  key is falsy. In both cases the \<^verbatim>\<open>null\<close> is returned, not thrown.
\<close>

theorem aes_null_iff_falsy:
  "(fst (aesEncryptData g p k) = Return JNull \<longleftrightarrow> \<not> truthy p \<or> \<not> truthy k)
   \<and> (\<not> truthy p \<or> \<not> truthy k \<longrightarrow> aesEncryptData g p k = (Return JNull, g))
   \<and> (aesDecryptData from_object b k = Return JNull \<longleftrightarrow> \<not> truthy b \<or> \<not> truthy k)"
proof (intro conjI)
  show "fst (aesEncryptData g p k) = Return JNull \<longleftrightarrow> \<not> truthy p \<or> \<not> truthy k"
    by (auto simp: aesEncryptData_def split: prod.splits sum.splits)
  show "\<not> truthy p \<or> \<not> truthy k \<longrightarrow> aesEncryptData g p k = (Return JNull, g)"
    by (auto simp: aesEncryptData_def)
  show "aesDecryptData from_object b k = Return JNull \<longleftrightarrow> \<not> truthy b \<or> \<not> truthy k"
    by (auto simp: aesDecryptData_def Let_def split: sum.splits)
qed

theorem aes_null_iff_falsy_witness:
  "aesEncryptData (\<lambda>_. 0) (JStr []) (JStr example_key) = (Return JNull, \<lambda>_. 0)
   \<and> aesEncryptData (\<lambda>_. 0) (JStr (ascii ''x'')) JUndefined = (Return JNull, \<lambda>_. 0)
   \<and> aesDecryptData no_buffer JNull (JStr example_key) = Return JNull
   \<and> aesDecryptData no_buffer (JStr (ascii ''AAAA'')) (JStr example_key) \<noteq> Return JNull"
  using aes_null_iff_falsy[of "\<lambda>_. 0" "JStr []" "JStr example_key" no_buffer JNull]
    aes_null_iff_falsy[of "\<lambda>_. 0" "JStr (ascii ''x'')" JUndefined no_buffer
      "JStr (ascii ''AAAA'')"]
    aes_null_iff_falsy[of "\<lambda>_. 0" JNull "JStr example_key" no_buffer "JStr (ascii ''AAAA'')"]
  by (simp add: example_key_def ascii_def)

lemma base64url_alphabet_chars: "map base64url_char [0..<64] = base64url_alphabet"
  by (simp add: base64url_alphabet_def ascii_def base64url_char_def upt_rec)

lemma base64url_char_in_alphabet: "n < 64 \<Longrightarrow> base64url_char n \<in> set base64url_alphabet"
proof -
  assume "n < 64"
  then have "base64url_char n \<in> set (map base64url_char [0..<64])" by simp
  then show ?thesis by (simp only: base64url_alphabet_chars)
qed

lemma base64url_encode_alphabet: "set (base64url_encode bs) \<subseteq> set base64url_alphabet"
  by (induction bs rule: base64url_encode.induct)
     (simp_all add: base64url_char_in_alphabet sextet_bounds)

lemma length_base64url_encode: "length (base64url_encode bs) = (4 * length bs + 2) div 3"
  by (induction bs rule: base64url_encode.induct) simp_all

text \<open>
  C8. Wire layout. For a non-empty string and a key of 32 bytes the encoder returns the
  base64url text of nonce, ciphertext and tag in this order: the 12 bytes drawn from the
  random source, the Galois/Counter Mode ciphertext of the string's UTF-8 bytes, which has
  their length, and its 16-byte tag. Decoding the text gives these \<open>12 + N + 16\<close> bytes
  back; the text uses the URL-safe alphabet only and is not padded.
\<close>

theorem aesEncryptData_layout:
  "s \<noteq> [] \<Longrightarrow> length (utf8_encode k) = 32 \<Longrightarrow>
   nonce = fst (randomBytes 12 g) \<Longrightarrow>
   c = gcm_crypt (utf8_encode k) nonce (utf8_encode s) \<Longrightarrow>
   tag = gcm_tag (utf8_encode k) nonce c \<Longrightarrow>
   blob = base64url_encode (nonce @ c @ tag) \<Longrightarrow>
   fst (aesEncryptData g (JStr s) (JStr k)) = Return (JStr blob)
   \<and> base64_decode blob = nonce @ c @ tag
   \<and> length nonce = 12 \<and> length c = length (utf8_encode s) \<and> length tag = 16
   \<and> length (base64_decode blob) = 12 + length (utf8_encode s) + 16
   \<and> set blob \<subseteq> set base64url_alphabet
   \<and> length blob = (4 * (12 + length (utf8_encode s) + 16) + 2) div 3"
  by (simp add: aesEncryptData_string base64_roundtrip base64url_encode_alphabet
        length_base64url_encode)

theorem aesEncryptData_layout_witness:
  "fst (aesEncryptData (\<lambda>i. of_nat i) (JStr (ascii ''hi'')) (JStr example_key)) =
     Return (JStr (base64url_encode (map of_nat [0..<12]
        @ gcm_crypt (utf8_encode example_key) (map of_nat [0..<12]) [0x68, 0x69]
        @ gcm_tag (utf8_encode example_key) (map of_nat [0..<12])
            (gcm_crypt (utf8_encode example_key) (map of_nat [0..<12]) [0x68, 0x69]))))
   \<and> length (gcm_crypt (utf8_encode example_key) (map of_nat [0..<12]) [0x68, 0x69]) = 2"
proof -
  have s: "ascii ''hi'' \<noteq> []" by (simp add: ascii_def)
  have u: "utf8_encode (ascii ''hi'') = [0x68, 0x69]"
    by (simp add: ascii_def is_high_surrogate_def is_low_surrogate_def utf8_of_code_point_def)
  have r: "fst (randomBytes 12 (\<lambda>i. of_nat i)) = map of_nat [0..<12]"
    by (simp add: randomBytes_def)
  show ?thesis
    using aesEncryptData_layout[OF s example_key_valid refl refl refl refl, of "\<lambda>i. of_nat i"]
    unfolding u r by simp
qed

lemma push_bit_byte_nonzero: "j < 8 \<Longrightarrow> push_bit j (1 :: byte) \<noteq> 0"
proof -
  assume "j < 8"
  then have "j \<in> {0, 1, 2, 3, 4, 5, 6, 7}" by auto
  then show ?thesis by auto
qed

lemma xor_flip_neq: "m \<noteq> 0 \<Longrightarrow> a XOR m \<noteq> (a :: byte)"
  by (metis xor.right_neutral xor.left_commute xor_self_eq)

lemma aesDecryptData_never_null:
  "truthy b \<Longrightarrow> truthy k \<Longrightarrow>
   (\<exists>err. aesDecryptData from_object b k = Throw err) \<or> (\<exists>t. aesDecryptData from_object b k = Return (JStr t))"
  by (auto simp: aesDecryptData_def Let_def split: sum.splits)

lemma aesDecryptData_returns:
  assumes "aesDecryptData from_object (JStr blob) (JStr k) = Return v" "blob \<noteq> []" "k \<noteq> []"
    "buffer = base64_decode blob"
  shows "take (length (subarray buffer (- 16) (int (length buffer))))
            (gcm_tag (utf8_encode k) (subarray buffer 0 12) (subarray buffer 12 (- 16)))
           = subarray buffer (- 16) (int (length buffer))
         \<and> v = JStr (utf8_decode
                 (gcm_crypt (utf8_encode k) (subarray buffer 0 12) (subarray buffer 12 (- 16))))"
  using assms
  by (auto simp: aesDecryptData_def Buffer_from_def createDecipheriv_def createCipheriv_def
        setAuthTag_def decipher_update_def decipher_final_def Let_def
      split: sum.splits if_splits)

lemma tag_flip_rejected:
  assumes s: "s \<noteq> []" and k: "length (utf8_encode ks) = 32"
    and enc: "fst (aesEncryptData g (JStr s) (JStr ks)) = Return (JStr enc)"
    and raw: "raw = base64_decode enc"
    and i: "12 + length (utf8_encode s) \<le> i" "i < length raw" and j: "j < 8"
  shows "aesDecryptData from_object (JStr (base64url_encode (raw[i := raw ! i XOR push_bit j 1]))) (JStr ks)
           = Throw (JError ''Error'' ''Unsupported state or unable to authenticate data'')"
proof -
  define iv where "iv = fst (randomBytes 12 g)"
  define c where "c = gcm_crypt (utf8_encode ks) iv (utf8_encode s)"
  define tag where "tag = gcm_tag (utf8_encode ks) iv c"
  have l: "length iv = 12" "length c = length (utf8_encode s)" "length tag = 16"
    by (simp_all add: iv_def c_def tag_def)
  have "enc = base64url_encode (iv @ c @ tag)"
    using enc aesEncryptData_string[OF s k, of g] by (simp add: iv_def c_def tag_def)
  then have r: "raw = iv @ c @ tag"
    using raw by (simp add: base64_roundtrip)
  define i' where "i' = i - 12 - length c"
  have i': "i' < 16" "i = length iv + (length c + i')"
    using i l r by (simp_all add: i'_def)
  define tag' where "tag' = tag[i' := tag ! i' XOR push_bit j 1]"
  have t': "length tag' = 16" by (simp add: tag'_def l)
  have "raw ! i = tag ! i'"
    unfolding r i'(2) by (simp add: nth_append)
  then have r': "raw[i := raw ! i XOR push_bit j 1] = iv @ c @ tag'"
    unfolding r i'(2) tag'_def by (simp add: list_update_append)
  have "tag' ! i' \<noteq> tag ! i'"
    using i'(1) l(3) xor_flip_neq[OF push_bit_byte_nonzero[OF j]] by (simp add: tag'_def)
  then have ne: "gcm_tag (utf8_encode ks) iv c \<noteq> tag'"
    unfolding tag_def[symmetric] by auto
  show ?thesis
    unfolding r' using aesDecryptData_blob[OF l(1) t' k, where c = c] ne by simp
qed

text \<open>
  C6, amended. For a truthy blob and a truthy key the decoder never returns \<^verbatim>\<open>null\<close>. When
  it returns at all, the value is the string decoded from the decrypted ciphertext region
  and the tag region of the decoded blob is the tag (cut to its length) that the key gives
  for the nonce and ciphertext regions; in all other cases it throws. In particular, a
  blob of the encoder with any bit of its tag region flipped is rejected under the key it
  was made with.
\<close>

theorem aesDecryptData_integrity:
  "(truthy b \<and> truthy k \<longrightarrow> aesDecryptData from_object b k \<noteq> Return JNull)
   \<and> (blob \<noteq> [] \<and> ks \<noteq> [] \<and> aesDecryptData from_object (JStr blob) (JStr ks) = Return v \<longrightarrow>
        v = JStr (utf8_decode (gcm_crypt (utf8_encode ks) (subarray (base64_decode blob) 0 12)
                   (subarray (base64_decode blob) 12 (- 16))))
        \<and> take (length (subarray (base64_decode blob) (- 16) (int (length (base64_decode blob)))))
             (gcm_tag (utf8_encode ks) (subarray (base64_decode blob) 0 12)
                (subarray (base64_decode blob) 12 (- 16)))
            = subarray (base64_decode blob) (- 16) (int (length (base64_decode blob))))
   \<and> (s \<noteq> [] \<and> length (utf8_encode ks) = 32
        \<and> fst (aesEncryptData g (JStr s) (JStr ks)) = Return (JStr enc)
        \<and> raw = base64_decode enc
        \<and> 12 + length (utf8_encode s) \<le> i \<and> i < length raw \<and> j < 8 \<longrightarrow>
        aesDecryptData from_object (JStr (base64url_encode (raw[i := raw ! i XOR push_bit j 1]))) (JStr ks)
          = Throw (JError ''Error'' ''Unsupported state or unable to authenticate data''))"
proof (intro conjI impI)
  assume "truthy b \<and> truthy k"
  then show "aesDecryptData from_object b k \<noteq> Return JNull"
    using aesDecryptData_never_null[of b k from_object] by auto
next
  assume a: "blob \<noteq> [] \<and> ks \<noteq> [] \<and> aesDecryptData from_object (JStr blob) (JStr ks) = Return v"
  from aesDecryptData_returns[of from_object blob ks v "base64_decode blob"] a
  show "v = JStr (utf8_decode (gcm_crypt (utf8_encode ks) (subarray (base64_decode blob) 0 12)
                   (subarray (base64_decode blob) 12 (- 16))))"
    and "take (length (subarray (base64_decode blob) (- 16) (int (length (base64_decode blob)))))
             (gcm_tag (utf8_encode ks) (subarray (base64_decode blob) 0 12)
                (subarray (base64_decode blob) 12 (- 16)))
            = subarray (base64_decode blob) (- 16) (int (length (base64_decode blob)))"
    by simp_all
next
  assume "s \<noteq> [] \<and> length (utf8_encode ks) = 32
        \<and> fst (aesEncryptData g (JStr s) (JStr ks)) = Return (JStr enc)
        \<and> raw = base64_decode enc
        \<and> 12 + length (utf8_encode s) \<le> i \<and> i < length raw \<and> j < 8"
  then show "aesDecryptData from_object (JStr (base64url_encode (raw[i := raw ! i XOR push_bit j 1]))) (JStr ks)
          = Throw (JError ''Error'' ''Unsupported state or unable to authenticate data'')"
    using tag_flip_rejected by blast
qed

subsection \<open>The bulk wrappers on a record with a field \<^verbatim>\<open>__proto__\<close>\<close>

text \<open>
  C10. The claim is that a field holding the empty string is mapped to \<^verbatim>\<open>null\<close>. For the
  field \<^verbatim>\<open>__proto__\<close> (an own property, as \<^verbatim>\<open>JSON.parse('{"__proto__":""}')\<close> creates) the
  encoder returns \<^verbatim>\<open>null\<close> as claimed, but \<^verbatim>\<open>results['__proto__'] = null\<close> sets the
  prototype of \<^verbatim>\<open>results\<close> to \<^verbatim>\<open>null\<close> and stores nothing: the promise is fulfilled
  with a record that does not have the field. Under any other key, such as \<^verbatim>\<open>a\<close>, the
  field is mapped to \<^verbatim>\<open>null\<close>.
\<close>
theorem bulkAesEncrypt_proto_field_lost:
  "bulkAesEncrypt_after inherited thenable [(ascii ''__proto__'', JStr [])]
      (JStr example_key) g [0]
     = \<lparr>results = \<lparr>props = [], proto = NullPrototype\<rparr>, completed = 1, outcome = Fulfilled\<rparr>
   \<and> bulkAesEncrypt_after inherited thenable [(ascii ''a'', JStr [])] (JStr example_key) g [0]
     = \<lparr>results = \<lparr>props = [(ascii ''a'', JNull)], proto = ObjectPrototype\<rparr>,
        completed = 1, outcome = Fulfilled\<rparr>"
  by (simp add: bulkAesEncrypt_after_def bulkAesEncrypt_def promiseAllRecord_def
        launch_entry_def isPromise_def promisifiedAesEncryptData_def promisify_def
        aesEncryptData_def on_settled_def set_property_def resolve_def object_then_def
        empty_object_def ascii_def)

end
